theory Spec2Isabelle
  imports Complex_Main "HOL-Library.Char_ord" "HOL-Library.List_Lexorder" "HOL-Library.Sublist"
begin

section \<open>Strings\<close>

text \<open>
  Python strings are modelled as \<^typ>\<open>string\<close>, one \<^typ>\<open>char\<close> per code point, so the
  strings of the model are those over the code points \<open>U+0000\<close> to \<open>U+00FF\<close>. On these the
  character classes below are Python's own, which are Unicode-aware for \<open>str\<close>:
  \<open>str.lower\<close> and the case folding of \<open>re.IGNORECASE\<close> map \<open>A-Z\<close> to \<open>a-z\<close> and the capital
  letters \<open>U+00C0-U+00DE\<close> (without the multiplication sign \<open>U+00D7\<close>) to \<open>U+00E0-U+00FE\<close>;
  the class \<open>\w\<close> holds the characters for which \<open>str.isalnum\<close> is true and the underscore;
  \<open>str.strip\<close> removes the characters for which \<open>str.isspace\<close> is true.
\<close>

definition ascii_uppercase :: string where
  "ascii_uppercase = ''ABCDEFGHIJKLMNOPQRSTUVWXYZ''"

definition ascii_lowercase :: string where
  "ascii_lowercase = ''abcdefghijklmnopqrstuvwxyz''"

definition ascii_digits :: string where
  "ascii_digits = ''0123456789''"

definition latin1_uppercase :: string where
  "latin1_uppercase =
     [CHR 0xC0, CHR 0xC1, CHR 0xC2, CHR 0xC3, CHR 0xC4, CHR 0xC5, CHR 0xC6, CHR 0xC7,
      CHR 0xC8, CHR 0xC9, CHR 0xCA, CHR 0xCB, CHR 0xCC, CHR 0xCD, CHR 0xCE, CHR 0xCF,
      CHR 0xD0, CHR 0xD1, CHR 0xD2, CHR 0xD3, CHR 0xD4, CHR 0xD5, CHR 0xD6, CHR 0xD8,
      CHR 0xD9, CHR 0xDA, CHR 0xDB, CHR 0xDC, CHR 0xDD, CHR 0xDE]"

definition latin1_lowercase :: string where
  "latin1_lowercase =
     [CHR 0xE0, CHR 0xE1, CHR 0xE2, CHR 0xE3, CHR 0xE4, CHR 0xE5, CHR 0xE6, CHR 0xE7,
      CHR 0xE8, CHR 0xE9, CHR 0xEA, CHR 0xEB, CHR 0xEC, CHR 0xED, CHR 0xEE, CHR 0xEF,
      CHR 0xF0, CHR 0xF1, CHR 0xF2, CHR 0xF3, CHR 0xF4, CHR 0xF5, CHR 0xF6, CHR 0xF8,
      CHR 0xF9, CHR 0xFA, CHR 0xFB, CHR 0xFC, CHR 0xFD, CHR 0xFE]"

text \<open>The other alphanumeric characters below \<open>U+0100\<close>: the ordinal indicators, the
  superscript digits, the micro sign, the vulgar fractions, the sharp s and the y with
  diaeresis; none of them has an other case below \<open>U+0100\<close>.\<close>

definition latin1_caseless :: string where
  "latin1_caseless =
     [CHR 0xAA, CHR 0xB2, CHR 0xB3, CHR 0xB5, CHR 0xB9, CHR 0xBA, CHR 0xBC, CHR 0xBD, CHR 0xBE,
      CHR 0xDF, CHR 0xFF]"

definition uppercase :: string where
  "uppercase = ascii_uppercase @ latin1_uppercase"

definition lowercase :: string where
  "lowercase = ascii_lowercase @ latin1_lowercase"

definition lower_char :: "char \<Rightarrow> char" where
  "lower_char c = (case map_of (zip uppercase lowercase) c of Some l \<Rightarrow> l | None \<Rightarrow> c)"

definition str_lower :: "string \<Rightarrow> string" where
  "str_lower s = map lower_char s"

definition is_word_char :: "char \<Rightarrow> bool" where
  "is_word_char c = (c \<in> set (lowercase @ uppercase @ ascii_digits @ ''_'' @ latin1_caseless))"

definition is_space :: "char \<Rightarrow> bool" where
  "is_space c = (c \<in> set [CHR 0x09, CHR 0x0A, CHR 0x0B, CHR 0x0C, CHR 0x0D,
                            CHR 0x1C, CHR 0x1D, CHR 0x1E, CHR 0x1F, CHR '' '',
                            CHR 0x85, CHR 0xA0])"

definition strip :: "string \<Rightarrow> string" where
  "strip s = rev (dropWhile is_space (rev (dropWhile is_space s)))"

text \<open>\<open>str(n)\<close> for a natural number, and the format \<open>{n:04d}\<close>.\<close>

fun str_nat :: "nat \<Rightarrow> string" where
  "str_nat n =
     (if n < 10 then [ascii_digits ! n]
      else str_nat (n div 10) @ [ascii_digits ! (n mod 10)])"

declare str_nat.simps [simp del]

definition format_04d :: "nat \<Rightarrow> string" where
  "format_04d n = replicate (4 - length (str_nat n)) CHR ''0'' @ str_nat n"

section \<open>The canonicalizer: \<open>normalize_description\<close> (graphdb.py)\<close>

text \<open>
  \<open>re.sub(r'\b' + re.escape(name) + r'\b', repl, text, flags=re.IGNORECASE)\<close>: the pattern is
  the literal \<open>name\<close> between two word-boundary assertions, so a match at a position has the
  length of \<open>name\<close>. The scan goes left to right, \<open>prev\<close> being the character in front of the
  current position. An empty match (possible only for the empty name) is replaced and the scan
  then moves on by one character.
\<close>

fun prefix_ci :: "string \<Rightarrow> string \<Rightarrow> bool" where
  "prefix_ci [] text = True"
| "prefix_ci (p # ps) [] = False"
| "prefix_ci (p # ps) (c # cs) = (lower_char p = lower_char c \<and> prefix_ci ps cs)"

fun is_w :: "char option \<Rightarrow> bool" where
  "is_w None = False"
| "is_w (Some c) = is_word_char c"

definition word_boundary :: "char option \<Rightarrow> char option \<Rightarrow> bool" where
  "word_boundary l r = (is_w l \<noteq> is_w r)"

fun head :: "string \<Rightarrow> char option" where
  "head [] = None"
| "head (c # cs) = Some c"

fun last_of :: "char option \<Rightarrow> string \<Rightarrow> char option" where
  "last_of prev [] = prev"
| "last_of prev (c # cs) = last_of (Some c) cs"

definition matches_at :: "string \<Rightarrow> char option \<Rightarrow> string \<Rightarrow> bool" where
  "matches_at name prev text =
     (prefix_ci name text \<and> word_boundary prev (head text) \<and>
      word_boundary (last_of prev (take (length name) text)) (head (drop (length name) text)))"

fun sub_scan :: "string \<Rightarrow> string \<Rightarrow> char option \<Rightarrow> string \<Rightarrow> string" where
  "sub_scan name repl prev [] = (if matches_at name prev [] then repl else [])"
| "sub_scan name repl prev (c # cs) =
     (if matches_at name prev (c # cs) then
        (if name = [] then repl @ c # sub_scan name repl (Some c) cs
         else repl @ sub_scan name repl (last_of prev (take (length name) (c # cs)))
                       (drop (length name) (c # cs)))
      else c # sub_scan name repl (Some c) cs)"

declare sub_scan.simps [simp del]

definition re_sub_word :: "string \<Rightarrow> string \<Rightarrow> string \<Rightarrow> string" where
  "re_sub_word name repl text = sub_scan name repl None text"

definition normalize_description :: "string \<Rightarrow> string \<Rightarrow> string \<Rightarrow> string" where
  "normalize_description desc drug_a drug_b =
     (let normalized = re_sub_word drug_a ''<drugA>'' desc;
          normalized = re_sub_word drug_b ''<drugB>'' normalized
      in strip normalized)"

text \<open>
  The canonicalizer in the words of the specification: scanning left to right, an occurrence
  of the name (compared case-insensitively) is replaced when it is a whole word, that is when
  neither the character in front of it nor the character behind it is a word character.
\<close>

definition whole_word_at :: "string \<Rightarrow> char option \<Rightarrow> string \<Rightarrow> bool" where
  "whole_word_at name prev text =
     (prefix_ci name text \<and> \<not> is_w prev \<and> \<not> is_w (head (drop (length name) text)))"

fun replace_whole_words :: "string \<Rightarrow> string \<Rightarrow> char option \<Rightarrow> string \<Rightarrow> string" where
  "replace_whole_words name repl prev [] = []"
| "replace_whole_words name repl prev (c # cs) =
     (if name \<noteq> [] \<and> whole_word_at name prev (c # cs) then
        repl @ replace_whole_words name repl (last_of prev (take (length name) (c # cs)))
                 (drop (length name) (c # cs))
      else c # replace_whole_words name repl (Some c) cs)"

declare replace_whole_words.simps [simp del]

definition spec_canonicalize :: "string \<Rightarrow> string \<Rightarrow> string \<Rightarrow> string" where
  "spec_canonicalize desc name_a name_b =
     strip (replace_whole_words name_b ''<drugB>'' None
             (replace_whole_words name_a ''<drugA>'' None desc))"

text \<open>The name has no whole-word occurrence in the text: every occurrence touches a word
  character.\<close>

fun embedded_only :: "string \<Rightarrow> char option \<Rightarrow> string \<Rightarrow> bool" where
  "embedded_only name prev [] = True"
| "embedded_only name prev (c # cs) =
     (\<not> whole_word_at name prev (c # cs) \<and> embedded_only name (Some c) cs)"

text \<open>
  What the substitution does for the empty name, position by position: the replacement goes
  in at every word boundary of the text, that is in front of a character when exactly one of
  it and the character before it is a word character, in front of the text when it begins
  with a word character and behind it when it ends with one; every character of the text is
  kept.
\<close>

fun insert_at_boundaries :: "string \<Rightarrow> char option \<Rightarrow> string \<Rightarrow> string" where
  "insert_at_boundaries repl prev [] = (if is_w prev then repl else [])"
| "insert_at_boundaries repl prev (c # cs) =
     (if is_w prev \<noteq> is_word_char c then repl else []) @
     c # insert_at_boundaries repl (Some c) cs"

section \<open>The graph store (graphdb.py)\<close>

text \<open>
  The graph store as the ingestion queries see it. The uniqueness constraints of
  \<open>create_constraints\<close> make the \<open>id\<close> property identify a \<open>Drug\<close> and a \<open>Reaction\<close> node, so
  nodes are kept by id and an edge names its end points by id; each list is in the order of
  creation.
\<close>

record graph =
  drugs :: "(string \<times> string) list"
  reactions :: "(string \<times> (string \<times> string)) list"
  interacts :: "((string \<times> string) \<times> string) list"
  has_reaction :: "(string \<times> string) list"

definition empty_graph :: graph where
  "empty_graph = \<lparr>drugs = [], reactions = [], interacts = [], has_reaction = []\<rparr>"

text \<open>\<open>MERGE (n {key}) SET n.props = v\<close>: every entry with the key gets the properties, and
  an entry is created when there is none.\<close>

definition set_props :: "'k \<Rightarrow> 'v \<Rightarrow> ('k \<times> 'v) list \<Rightarrow> ('k \<times> 'v) list" where
  "set_props k v xs = map (\<lambda>e. if fst e = k then (k, v) else e) xs"

definition merge_set :: "'k \<Rightarrow> 'v \<Rightarrow> ('k \<times> 'v) list \<Rightarrow> ('k \<times> 'v) list" where
  "merge_set k v xs = (if k \<in> set (map fst xs) then set_props k v xs else xs @ [(k, v)])"

definition drug_query :: "graph \<Rightarrow> string \<Rightarrow> string \<Rightarrow> graph" where
  "drug_query g drug_id drug_name = g\<lparr>drugs := merge_set drug_id drug_name (drugs g)\<rparr>"

definition reaction_query :: "graph \<Rightarrow> string \<Rightarrow> string \<Rightarrow> string \<Rightarrow> graph" where
  "reaction_query g reaction_id normalized_desc example_desc =
     g\<lparr>reactions := merge_set reaction_id (normalized_desc, example_desc) (reactions g)\<rparr>"

definition interaction_check_query :: "graph \<Rightarrow> string \<Rightarrow> string \<Rightarrow> nat" where
  "interaction_check_query g drug_a_id drug_b_id =
     length (filter (\<lambda>e. fst e = (drug_a_id, drug_b_id)) (interacts g))"

definition interaction_query :: "graph \<Rightarrow> string \<Rightarrow> string \<Rightarrow> string \<Rightarrow> graph" where
  "interaction_query g drug_a_id drug_b_id description =
     (if drug_a_id \<in> set (map fst (drugs g)) \<and> drug_b_id \<in> set (map fst (drugs g))
      then g\<lparr>interacts := merge_set (drug_a_id, drug_b_id) description (interacts g)\<rparr>
      else g)"

definition reaction_link_check_query :: "graph \<Rightarrow> string \<Rightarrow> string \<Rightarrow> nat" where
  "reaction_link_check_query g drug_id reaction_id =
     length (filter (\<lambda>e. e = (drug_id, reaction_id)) (has_reaction g))"

definition has_reaction_query :: "graph \<Rightarrow> string \<Rightarrow> string \<Rightarrow> graph" where
  "has_reaction_query g drug_id reaction_id =
     (if drug_id \<in> set (map fst (drugs g)) \<and> reaction_id \<in> set (map fst (reactions g))
         \<and> (drug_id, reaction_id) \<notin> set (has_reaction g)
      then g\<lparr>has_reaction := has_reaction g @ [(drug_id, reaction_id)]\<rparr>
      else g)"

text \<open>The four counts of the store.\<close>

definition drug_count :: "graph \<Rightarrow> nat" where
  "drug_count g = length (drugs g)"

definition interaction_count :: "graph \<Rightarrow> nat" where
  "interaction_count g = length (interacts g)"

definition reaction_count :: "graph \<Rightarrow> nat" where
  "reaction_count g = length (reactions g)"

definition link_count :: "graph \<Rightarrow> nat" where
  "link_count g = length (has_reaction g)"

definition counts :: "graph \<Rightarrow> nat \<times> nat \<times> nat \<times> nat" where
  "counts g = (drug_count g, interaction_count g, reaction_count g, link_count g)"

section \<open>The ingestion pipeline: \<open>process_batch\<close> (graphdb.py)\<close>

record stats =
  total_records :: nat
  processed_records :: nat
  drugs_created :: nat
  interactions_created :: nat
  interactions_skipped :: nat
  reactions_created :: nat
  drug_reaction_links :: nat
  drug_reaction_links_skipped :: nat

datatype ingest_error = UnpackError nat | KeyError nat

text \<open>The variables of \<open>process_batch\<close>: the open transaction, the two mutable dictionaries
  \<open>stats\<close> and \<open>reaction_map\<close>, the counter, and the locals \<open>drugs_seen\<close> and
  \<open>batch_errors\<close>.\<close>

record batch_state =
  tx :: graph
  st :: stats
  reaction_map :: "string \<rightharpoonup> string"
  reaction_counter :: nat
  drugs_seen :: "string set"
  batch_errors :: "ingest_error list"

definition track_drug :: "string \<Rightarrow> batch_state \<Rightarrow> batch_state" where
  "track_drug drug_id s =
     (if drug_id \<notin> drugs_seen s
      then s\<lparr>drugs_seen := insert drug_id (drugs_seen s),
             st := (st s)\<lparr>drugs_created := drugs_created (st s) + 1\<rparr>\<rparr>
      else s)"

definition insert_drug :: "string \<Rightarrow> string \<Rightarrow> batch_state \<Rightarrow> batch_state" where
  "insert_drug drug_id drug_name s = s\<lparr>tx := drug_query (tx s) drug_id drug_name\<rparr>"

definition insert_interaction :: "string \<Rightarrow> string \<Rightarrow> string \<Rightarrow> batch_state \<Rightarrow> batch_state" where
  "insert_interaction drug_a_id drug_b_id description s =
     (let interaction_exists = (interaction_check_query (tx s) drug_a_id drug_b_id > 0)
      in if \<not> interaction_exists
         then s\<lparr>tx := interaction_query (tx s) drug_a_id drug_b_id description,
                st := (st s)\<lparr>interactions_created := interactions_created (st s) + 1\<rparr>\<rparr>
         else s\<lparr>st := (st s)\<lparr>interactions_skipped := interactions_skipped (st s) + 1\<rparr>\<rparr>)"

definition reaction_id_of :: "nat \<Rightarrow> string" where
  "reaction_id_of n = ''R'' @ format_04d n"

definition insert_reaction :: "string \<Rightarrow> string \<Rightarrow> batch_state \<Rightarrow> batch_state" where
  "insert_reaction normalized description s =
     (if reaction_map s normalized = None
      then let reaction_id = reaction_id_of (reaction_counter s)
           in s\<lparr>reaction_map := (reaction_map s)(normalized \<mapsto> reaction_id),
                tx := reaction_query (tx s) reaction_id normalized description,
                st := (st s)\<lparr>reactions_created := reactions_created (st s) + 1\<rparr>,
                reaction_counter := reaction_counter s + 1\<rparr>
      else s)"

definition link_drug :: "string \<Rightarrow> string \<Rightarrow> batch_state \<Rightarrow> batch_state" where
  "link_drug drug_id reaction_id s =
     (if reaction_link_check_query (tx s) drug_id reaction_id = 0
      then s\<lparr>tx := has_reaction_query (tx s) drug_id reaction_id,
             st := (st s)\<lparr>drug_reaction_links := drug_reaction_links (st s) + 1\<rparr>\<rparr>
      else s\<lparr>st := (st s)\<lparr>drug_reaction_links_skipped :=
                              drug_reaction_links_skipped (st s) + 1\<rparr>\<rparr>)"

definition count_processed :: "batch_state \<Rightarrow> batch_state" where
  "count_processed s = s\<lparr>st := (st s)\<lparr>processed_records := processed_records (st s) + 1\<rparr>\<rparr>"

text \<open>\<open>reaction_id = reaction_map[normalized]\<close> and the two links. The look-up cannot fail
  after \<open>insert_reaction\<close>; the model keeps the \<open>KeyError\<close> branch of the dictionary access.\<close>

definition link_reaction :: "nat \<Rightarrow> string \<Rightarrow> string \<Rightarrow> string \<Rightarrow> batch_state \<Rightarrow> batch_state" where
  "link_reaction record_index drug_a_id drug_b_id normalized s =
     (case reaction_map s normalized of
        None \<Rightarrow> s\<lparr>batch_errors := batch_errors s @ [KeyError record_index]\<rparr>
      | Some reaction_id \<Rightarrow>
          count_processed (link_drug drug_b_id reaction_id (link_drug drug_a_id reaction_id s)))"

text \<open>The statements from \<open># Normalize reaction\<close> on, for the value of \<open>normalized\<close>.\<close>

definition reaction_step ::
  "nat \<Rightarrow> string \<Rightarrow> string \<Rightarrow> string \<Rightarrow> string \<Rightarrow> batch_state \<Rightarrow> batch_state" where
  "reaction_step record_index drug_a_id drug_b_id description normalized s =
     link_reaction record_index drug_a_id drug_b_id normalized
       (insert_reaction normalized description s)"

text \<open>The body of the loop over the batch; the statements run in the order of the source,
  innermost first. A record that does not have five fields raises at the unpacking, before
  anything is written; the error is kept and the loop goes on.\<close>

definition process_record :: "nat \<Rightarrow> string list \<Rightarrow> batch_state \<Rightarrow> batch_state" where
  "process_record record_index record s =
     (case map strip record of
        [drug_a_id, drug_a_name, drug_b_id, drug_b_name, description] \<Rightarrow>
          reaction_step record_index drug_a_id drug_b_id description
            (normalize_description description drug_a_name drug_b_name)
            (insert_interaction drug_a_id drug_b_id description
              (insert_drug drug_b_id drug_b_name
                (insert_drug drug_a_id drug_a_name
                  (track_drug drug_b_id
                    (track_drug drug_a_id s)))))
      | _ \<Rightarrow> s\<lparr>batch_errors := batch_errors s @ [UnpackError record_index]\<rparr>)"

fun process_records :: "nat \<Rightarrow> string list list \<Rightarrow> batch_state \<Rightarrow> batch_state" where
  "process_records record_index [] s = s"
| "process_records record_index (record # batch_data) s =
     process_records (record_index + 1) batch_data (process_record record_index record s)"

definition process_batch ::
  "graph \<Rightarrow> string list list \<Rightarrow> stats \<Rightarrow> (string \<rightharpoonup> string) \<Rightarrow> nat \<Rightarrow> nat \<Rightarrow> batch_state" where
  "process_batch g batch_data stats0 rmap rcounter start_index =
     process_records start_index batch_data
       \<lparr>tx = g, st = stats0, reaction_map = rmap, reaction_counter = rcounter,
        drugs_seen = {}, batch_errors = []\<rparr>"

section \<open>Checkpoints and the batch loop: \<open>import_to_neo4j_with_recovery\<close> (graphdb.py)\<close>

record checkpoint =
  processed_count :: nat
  cp_stats :: stats
  cp_reaction_map :: "string \<rightharpoonup> string"
  cp_reaction_counter :: nat

text \<open>What the run does to the outside, in order: a committed write transaction for the
  batch from \<open>batch_start\<close> to \<open>batch_end\<close>, a saved checkpoint with its \<open>processed_count\<close>, a
  removed checkpoint file.\<close>

datatype event = TxCommitted nat nat | CheckpointSaved nat | CheckpointCleared

record world =
  store :: graph
  checkpoint_file :: "checkpoint option"
  trace :: "event list"

definition save_checkpoint :: "nat \<Rightarrow> stats \<Rightarrow> (string \<rightharpoonup> string) \<Rightarrow> nat \<Rightarrow> world \<Rightarrow> world" where
  "save_checkpoint count stats0 rmap rcounter w =
     w\<lparr>checkpoint_file := Some \<lparr>processed_count = count, cp_stats = stats0,
                                 cp_reaction_map = rmap, cp_reaction_counter = rcounter\<rparr>,
       trace := trace w @ [CheckpointSaved count]\<rparr>"

definition load_checkpoint :: "world \<Rightarrow> checkpoint option" where
  "load_checkpoint w = checkpoint_file w"

definition clear_checkpoint :: "world \<Rightarrow> world" where
  "clear_checkpoint w =
     (case checkpoint_file w of
        None \<Rightarrow> w
      | Some c \<Rightarrow> w\<lparr>checkpoint_file := None, trace := trace w @ [CheckpointCleared]\<rparr>)"

definition BATCH_SIZE :: nat where
  "BATCH_SIZE = 5000"

definition fresh_stats :: "nat \<Rightarrow> stats" where
  "fresh_stats n =
     \<lparr>total_records = n, processed_records = 0, drugs_created = 0, interactions_created = 0,
      interactions_skipped = 0, reactions_created = 0, drug_reaction_links = 0,
      drug_reaction_links_skipped = 0\<rparr>"

text \<open>The operator's answers to the prompt \<open>Resume from checkpoint? (y/n)\<close>, read until one
  is a yes or a no; when the input ends first, \<open>input\<close> raises \<open>EOFError\<close>.\<close>

fun ask_resume :: "string list \<Rightarrow> bool option" where
  "ask_resume [] = None"
| "ask_resume (a # answers) =
     (let choice = strip (str_lower a)
      in if choice \<in> set [''y'', ''yes''] then Some True
         else if choice \<in> set [''n'', ''no''] then Some False
         else ask_resume answers)"

datatype run_error = EOFError | ValueError | TransactionError nat

record loop_state =
  w :: world
  l_stats :: stats
  l_reaction_map :: "string \<rightharpoonup> string"
  l_reaction_counter :: nat
  total_errors :: "ingest_error list"

text \<open>
  The loop \<open>for batch_start in range(start_index, len(data), BATCH_SIZE)\<close>. The write
  transaction of a batch either commits, and the store then has what \<open>process_batch\<close> wrote,
  or fails, which \<open>commits batch_start\<close> decides for the model; a failed transaction leaves
  the store as it was and ends the run with the exception. A step of zero makes \<open>range\<close>
  raise \<open>ValueError\<close>.
\<close>

function batch_loop ::
  "(nat \<Rightarrow> bool) \<Rightarrow> nat \<Rightarrow> string list list \<Rightarrow> nat \<Rightarrow> loop_state
     \<Rightarrow> run_error option \<times> loop_state" where
  "batch_loop commits batch_size data batch_start s =
     (if 0 < batch_size \<and> batch_start < length data then
        (let batch_end = min (batch_start + batch_size) (length data);
             batch_data = take (batch_end - batch_start) (drop batch_start data)
         in if commits batch_start then
              (let b = process_batch (store (w s)) batch_data (l_stats s) (l_reaction_map s)
                         (l_reaction_counter s) batch_start;
                   w1 = (w s)\<lparr>store := tx b,
                                trace := trace (w s) @ [TxCommitted batch_start batch_end]\<rparr>;
                   w2 = save_checkpoint batch_end (st b) (reaction_map b) (reaction_counter b) w1
               in batch_loop commits batch_size data batch_end
                    \<lparr>w = w2, l_stats = st b, l_reaction_map = reaction_map b,
                     l_reaction_counter = reaction_counter b,
                     total_errors = total_errors s @ batch_errors b\<rparr>)
            else (Some (TransactionError batch_start), s))
      else (None, s))"
  by pat_completeness auto
termination
  by (relation "measure (\<lambda>(commits, batch_size, data, batch_start, s). length data - batch_start)")
     auto

declare batch_loop.simps [simp del]

definition start_state :: "world \<Rightarrow> string list list \<Rightarrow> string list \<Rightarrow> run_error + (nat \<times> loop_state)" where
  "start_state w0 data answers =
     (let fresh = \<lparr>w = w0, l_stats = fresh_stats (length data), l_reaction_map = Map.empty,
                   l_reaction_counter = 1, total_errors = []\<rparr>
      in case load_checkpoint w0 of
           None \<Rightarrow> Inr (0, fresh)
         | Some c \<Rightarrow>
             (case ask_resume answers of
                None \<Rightarrow> Inl EOFError
              | Some True \<Rightarrow>
                  Inr (processed_count c,
                       \<lparr>w = w0, l_stats = cp_stats c, l_reaction_map = cp_reaction_map c,
                        l_reaction_counter = cp_reaction_counter c, total_errors = []\<rparr>)
              | Some False \<Rightarrow> Inr (0, fresh\<lparr>w := clear_checkpoint w0\<rparr>)))"

text \<open>The run: the world it leaves, and either the exception it ends with or the returned
  \<open>(stats, total_errors)\<close>.\<close>

definition import_with_batch_size ::
  "nat \<Rightarrow> (nat \<Rightarrow> bool) \<Rightarrow> string list \<Rightarrow> world \<Rightarrow> string list list
     \<Rightarrow> world \<times> (run_error + (stats \<times> ingest_error list))" where
  "import_with_batch_size batch_size commits answers w0 data =
     (case start_state w0 data answers of
        Inl e \<Rightarrow> (w0, Inl e)
      | Inr (start_index, s0) \<Rightarrow>
          (if batch_size = 0 then (w s0, Inl ValueError)
           else case batch_loop commits batch_size data start_index s0 of
                  (Some e, s) \<Rightarrow> (w s, Inl e)
                | (None, s) \<Rightarrow> (clear_checkpoint (w s), Inr (l_stats s, total_errors s))))"

definition import_to_neo4j_with_recovery ::
  "(nat \<Rightarrow> bool) \<Rightarrow> string list \<Rightarrow> world \<Rightarrow> string list list
     \<Rightarrow> world \<times> (run_error + (stats \<times> ingest_error list))" where
  "import_to_neo4j_with_recovery = import_with_batch_size BATCH_SIZE"

section \<open>Notions used in stating the properties of the ingestion\<close>

text \<open>The keys of a store: the ids of its nodes and the end points of its edges.\<close>

definition drug_ids :: "graph \<Rightarrow> string set" where
  "drug_ids g = set (map fst (drugs g))"

definition reaction_ids :: "graph \<Rightarrow> string set" where
  "reaction_ids g = set (map fst (reactions g))"

definition interaction_pairs :: "graph \<Rightarrow> (string \<times> string) set" where
  "interaction_pairs g = set (map fst (interacts g))"

definition reaction_links :: "graph \<Rightarrow> (string \<times> string) set" where
  "reaction_links g = set (has_reaction g)"

definition keys_le :: "graph \<Rightarrow> graph \<Rightarrow> bool" where
  "keys_le g g' =
     (drug_ids g \<subseteq> drug_ids g' \<and> reaction_ids g \<subseteq> reaction_ids g' \<and>
      interaction_pairs g \<subseteq> interaction_pairs g' \<and> reaction_links g \<subseteq> reaction_links g')"

text \<open>Every reaction id of the dictionary is the id of a \<open>Reaction\<close> node of the open
  transaction.\<close>

definition reactions_known :: "batch_state \<Rightarrow> bool" where
  "reactions_known s =
     (\<forall>n rid. reaction_map s n = Some rid \<longrightarrow> rid \<in> reaction_ids (tx s))"

text \<open>The id under which a canonical description is linked: the one the dictionary has, or
  the next one.\<close>

definition reaction_id_for :: "(string \<rightharpoonup> string) \<Rightarrow> nat \<Rightarrow> string \<Rightarrow> string" where
  "reaction_id_for rmap rcounter normalized =
     (case rmap normalized of Some rid \<Rightarrow> rid | None \<Rightarrow> reaction_id_of rcounter)"

text \<open>Everything a record writes, under a dictionary and a counter, is in the store already.\<close>

definition record_present :: "graph \<Rightarrow> string list \<Rightarrow> (string \<rightharpoonup> string) \<Rightarrow> nat \<Rightarrow> bool" where
  "record_present g record rmap rcounter =
     (case map strip record of
        [drug_a_id, drug_a_name, drug_b_id, drug_b_name, description] \<Rightarrow>
          drug_a_id \<in> drug_ids g \<and> drug_b_id \<in> drug_ids g \<and>
          (drug_a_id, drug_b_id) \<in> interaction_pairs g \<and>
          reaction_id_for rmap rcounter
            (normalize_description description drug_a_name drug_b_name) \<in> reaction_ids g \<and>
          (drug_a_id,
           reaction_id_for rmap rcounter
             (normalize_description description drug_a_name drug_b_name)) \<in> reaction_links g \<and>
          (drug_b_id,
           reaction_id_for rmap rcounter
             (normalize_description description drug_a_name drug_b_name)) \<in> reaction_links g
      | _ \<Rightarrow> True)"

text \<open>The description of the \<open>INTERACTS_WITH\<close> edge of an ordered pair, when there is one.\<close>

definition interaction_description :: "graph \<Rightarrow> string \<Rightarrow> string \<Rightarrow> string option" where
  "interaction_description g drug_a_id drug_b_id = map_of (interacts g) (drug_a_id, drug_b_id)"

text \<open>The shape of a store: its keys in order, without the properties. The counts and the
  key sets of a store are read off its shape.\<close>

definition shape ::
  "graph \<Rightarrow> string list \<times> string list \<times> (string \<times> string) list \<times> (string \<times> string) list" where
  "shape g = (map fst (drugs g), map fst (reactions g), map fst (interacts g), has_reaction g)"

text \<open>What a later record can see of the state of \<open>process_batch\<close>: the store, the dictionary
  of reaction ids and the counter. The statistics, \<open>drugs_seen\<close> and the errors are written
  but never read by the statements that write the store.\<close>

definition core :: "batch_state \<Rightarrow> graph \<times> (string \<rightharpoonup> string) \<times> nat" where
  "core s = (tx s, reaction_map s, reaction_counter s)"

text \<open>The same for the state of the batch loop, and what a list of records makes of a
  store, a dictionary and a counter, whatever the batches it is processed in.\<close>

definition loop_core :: "loop_state \<Rightarrow> graph \<times> (string \<rightharpoonup> string) \<times> nat" where
  "loop_core s = (store (w s), l_reaction_map s, l_reaction_counter s)"

definition records_core ::
  "graph \<times> (string \<rightharpoonup> string) \<times> nat \<Rightarrow> string list list \<Rightarrow> graph \<times> (string \<rightharpoonup> string) \<times> nat" where
  "records_core c batch_data =
     core (process_records 0 batch_data
             \<lparr>tx = fst c, st = fresh_stats 0, reaction_map = fst (snd c),
              reaction_counter = snd (snd c), drugs_seen = {}, batch_errors = []\<rparr>)"



text \<open>The state of the batch loop after the batch at \<open>batch_start\<close>, when its transaction
  commits.\<close>

definition batch_step :: "nat \<Rightarrow> string list list \<Rightarrow> nat \<Rightarrow> loop_state \<Rightarrow> loop_state" where
  "batch_step batch_size data batch_start s =
     (let batch_end = min (batch_start + batch_size) (length data);
          batch_data = take (batch_end - batch_start) (drop batch_start data);
          b = process_batch (store (w s)) batch_data (l_stats s) (l_reaction_map s)
                (l_reaction_counter s) batch_start;
          w1 = (w s)\<lparr>store := tx b,
                       trace := trace (w s) @ [TxCommitted batch_start batch_end]\<rparr>;
          w2 = save_checkpoint batch_end (st b) (reaction_map b) (reaction_counter b) w1
      in \<lparr>w = w2, l_stats = st b, l_reaction_map = reaction_map b,
          l_reaction_counter = reaction_counter b,
          total_errors = total_errors s @ batch_errors b\<rparr>)"

section \<open>Entity resolution in the graph store: \<open>_get_single_entity_relationships\<close> (crossdb.py)\<close>

text \<open>\<open>a CONTAINS b\<close> of Cypher: the string \<open>b\<close> occurs in the string \<open>a\<close>.\<close>

fun contains :: "string \<Rightarrow> string \<Rightarrow> bool" where
  "contains [] sub = (sub = [])"
| "contains (c # cs) sub = (prefix sub (c # cs) \<or> contains cs sub)"

text \<open>
  The query \<open>entity_search_query\<close> over the \<open>Drug\<close> nodes, a node being its \<open>(id, name)\<close>:
  the \<open>WHERE\<close> clause, the \<open>CASE\<close> expression of \<open>ORDER BY\<close>, and \<open>LIMIT 1\<close> with
  \<open>entity_result.single()\<close>, which gives the first row or nothing. Rows of the same rank
  stay in the order of the store.
\<close>

definition entity_where :: "string \<Rightarrow> string \<times> string \<Rightarrow> bool" where
  "entity_where q e =
     (str_lower (snd e) = str_lower q \<or> str_lower (fst e) = str_lower q \<or>
      contains (str_lower (snd e)) (str_lower q))"

definition entity_order :: "string \<Rightarrow> string \<times> string \<Rightarrow> nat" where
  "entity_order q e =
     (if str_lower (snd e) = str_lower q then 1
      else if str_lower (fst e) = str_lower q then 2
      else 3)"

definition entity_search_query :: "graph \<Rightarrow> string \<Rightarrow> (string \<times> string) option" where
  "entity_search_query g q =
     (case sort_key (entity_order q) (filter (entity_where q) (drugs g)) of
        [] \<Rightarrow> None
      | e # rest \<Rightarrow> Some e)"

text \<open>The third way to match in the words of the specification: the query is contained in
  the stored name, or the stored name is contained in the query.\<close>

definition spec_substring_match :: "string \<Rightarrow> string \<times> string \<Rightarrow> bool" where
  "spec_substring_match q e =
     (contains (str_lower (snd e)) (str_lower q) \<or> contains (str_lower q) (str_lower (snd e)))"

section \<open>Relationships among several entities: \<open>_get_multi_entity_relationships\<close> (crossdb.py)\<close>

record relationship_row =
  entity1_name :: string
  entity1_id :: string
  relationship_type :: string
  interaction_description :: string
  entity2_name :: string
  entity2_id :: string
  reaction_description :: "string option"

text \<open>
  The rows of the Cypher query. A pattern \<open>(e1)-[r]-(e2)\<close> without direction matches every
  edge once in each direction. Only \<open>Drug\<close> nodes have a \<open>name\<close>, so the conditions on
  \<open>e1.name\<close> and \<open>e2.name\<close> leave the \<open>INTERACTS_WITH\<close> edges. With a relationship type the
  \<open>OPTIONAL MATCH\<close> adds the canonical description of every \<open>Reaction\<close> node that both drugs
  are linked to, or nothing when there is none; \<open>RETURN DISTINCT\<close> and \<open>LIMIT\<close> follow.
\<close>

definition shared_reactions :: "graph \<Rightarrow> string \<Rightarrow> string \<Rightarrow> string list" where
  "shared_reactions g id1 id2 =
     concat (map (\<lambda>l. if fst l = id1 \<and> (id2, snd l) \<in> set (has_reaction g)
                        then map (\<lambda>r. fst (snd r)) (filter (\<lambda>r. fst r = snd l) (reactions g))
                        else [])
               (has_reaction g))"

definition optional_reactions :: "graph \<Rightarrow> string \<Rightarrow> string \<Rightarrow> string option list" where
  "optional_reactions g id1 id2 =
     (if shared_reactions g id1 id2 = [] then [None] else map Some (shared_reactions g id1 id2))"

definition names_of :: "graph \<Rightarrow> string \<Rightarrow> string list" where
  "names_of g drug_id = map snd (filter (\<lambda>d. fst d = drug_id) (drugs g))"

definition directed_rows ::
  "graph \<Rightarrow> string list \<Rightarrow> bool \<Rightarrow> string \<Rightarrow> string \<Rightarrow> string \<Rightarrow> relationship_row list" where
  "directed_rows g entity_names typed id1 id2 description =
     concat (map (\<lambda>n1. concat (map (\<lambda>n2.
       if str_lower n1 \<in> set (map str_lower entity_names) \<and>
          str_lower n2 \<in> set (map str_lower entity_names) \<and> n1 < n2
       then map (\<lambda>reaction.
              \<lparr>entity1_name = n1, entity1_id = id1, relationship_type = ''INTERACTS_WITH'',
               interaction_description = description, entity2_name = n2, entity2_id = id2,
               reaction_description = reaction\<rparr>)
              (if typed then optional_reactions g id1 id2 else [None])
       else []) (names_of g id2))) (names_of g id1))"

definition cypher_query :: "graph \<Rightarrow> string list \<Rightarrow> string \<Rightarrow> nat \<Rightarrow> relationship_row list" where
  "cypher_query g entity_names rel_type limit =
     (if rel_type \<noteq> [] \<and> rel_type \<noteq> ''INTERACTS_WITH'' then []
      else take limit (remdups (concat (map (\<lambda>e.
             directed_rows g entity_names (rel_type \<noteq> []) (fst (fst e)) (snd (fst e)) (snd e) @
             directed_rows g entity_names (rel_type \<noteq> []) (snd (fst e)) (fst (fst e)) (snd e))
             (interacts g)))))"

text \<open>\<open>tuple(sorted([record['entity1_name'], record['entity2_name']]))\<close>\<close>

definition pair_key :: "relationship_row \<Rightarrow> string \<times> string" where
  "pair_key record =
     (if entity2_name record < entity1_name record
      then (entity2_name record, entity1_name record)
      else (entity1_name record, entity2_name record))"

text \<open>The loop over the rows, with the variables \<open>seen_pairs\<close> and \<open>relationships\<close>.\<close>

fun seen_pairs_loop ::
  "relationship_row list \<Rightarrow> (string \<times> string) set \<Rightarrow> relationship_row list
     \<Rightarrow> relationship_row list" where
  "seen_pairs_loop [] seen_pairs relationships = relationships"
| "seen_pairs_loop (record # result) seen_pairs relationships =
     (if pair_key record \<notin> seen_pairs
      then seen_pairs_loop result (insert (pair_key record) seen_pairs) (relationships @ [record])
      else seen_pairs_loop result seen_pairs relationships)"

definition get_multi_entity_relationships ::
  "graph \<Rightarrow> string list \<Rightarrow> string \<Rightarrow> nat \<Rightarrow> relationship_row list" where
  "get_multi_entity_relationships g entity_names rel_type limit =
     seen_pairs_loop (cypher_query g entity_names rel_type limit) {} []"

text \<open>The unordered pair of the names of a record.\<close>

definition unordered_pair :: "relationship_row \<Rightarrow> string set" where
  "unordered_pair record = {entity1_name record, entity2_name record}"

section \<open>Similar drugs: \<open>find_drug_alternatives\<close> (main.py) and the filter of
  \<open>_build_similarity_context\<close> (agents.py)\<close>









section \<open>The upload of the embeddings (vectordb.py)\<close>

record point =
  point_id :: nat
  vector :: "real list"
  payload_drug_name :: string
  payload_drug_id :: string
  payload_upload_timestamp :: string

datatype upload_error = IndexError nat | RangeStepZero

text \<open>\<open>PointStruct(id=idx, ...)\<close>; \<open>now idx\<close> is the time at which the point is made. The
  names are strings, which \<open>str\<close> returns as they are.\<close>

definition make_point :: "string list \<Rightarrow> real list list \<Rightarrow> (nat \<Rightarrow> string) \<Rightarrow> nat \<Rightarrow> point" where
  "make_point drug_names embeddings now idx =
     \<lparr>point_id = idx, vector = embeddings ! idx, payload_drug_name = drug_names ! idx,
      payload_drug_id = str_nat idx, payload_upload_timestamp = now idx\<rparr>"

text \<open>The inner loop \<open>for idx in range(batch_start, batch_end)\<close>; \<open>embeddings[idx]\<close> raises
  when there are fewer embeddings than names.\<close>

definition prepare_batch ::
  "string list \<Rightarrow> real list list \<Rightarrow> (nat \<Rightarrow> string) \<Rightarrow> nat \<Rightarrow> nat \<Rightarrow> upload_error + point list" where
  "prepare_batch drug_names embeddings now batch_start batch_end =
     (case find (\<lambda>idx. length embeddings \<le> idx) [batch_start..<batch_end] of
        Some idx \<Rightarrow> Inl (IndexError idx)
      | None \<Rightarrow> Inr (map (make_point drug_names embeddings now) [batch_start..<batch_end]))"

text \<open>\<open>client.upsert\<close>: a point replaces the point of the collection that has its id, or is
  added.\<close>

definition upsert_point :: "point \<Rightarrow> point list \<Rightarrow> point list" where
  "upsert_point p collection =
     (if point_id p \<in> set (map point_id collection)
      then map (\<lambda>q. if point_id q = point_id p then p else q) collection
      else collection @ [p])"

definition upsert :: "point list \<Rightarrow> point list \<Rightarrow> point list" where
  "upsert points collection = foldl (\<lambda>c p. upsert_point p c) collection points"

record upload_state =
  collection :: "point list"
  uploaded_count :: nat

text \<open>The loop \<open>for batch_start in range(0, total_vectors, BATCH_SIZE)\<close>. Whether the upsert
  of a batch succeeds is decided by \<open>upsert_ok batch_start\<close> for the model; after a failed
  upsert the loop goes on with the next batch.\<close>

function upload_batches ::
  "(nat \<Rightarrow> bool) \<Rightarrow> nat \<Rightarrow> string list \<Rightarrow> real list list \<Rightarrow> (nat \<Rightarrow> string) \<Rightarrow> nat
     \<Rightarrow> upload_state \<Rightarrow> upload_error + upload_state" where
  "upload_batches upsert_ok batch_size drug_names embeddings now batch_start s =
     (if batch_size = 0 then Inl RangeStepZero
      else if batch_start < length drug_names then
        (case prepare_batch drug_names embeddings now batch_start
                (min (batch_start + batch_size) (length drug_names)) of
           Inl e \<Rightarrow> Inl e
         | Inr batch_points \<Rightarrow>
             upload_batches upsert_ok batch_size drug_names embeddings now
               (min (batch_start + batch_size) (length drug_names))
               (if upsert_ok batch_start
                then s\<lparr>collection := upsert batch_points (collection s),
                       uploaded_count := uploaded_count s + length batch_points\<rparr>
                else s))
      else Inr s)"
  by pat_completeness auto
termination
  by (relation "measure (\<lambda>(upsert_ok, batch_size, drug_names, embeddings, now, batch_start, s).
        length drug_names - batch_start)") auto

declare upload_batches.simps [simp del]

definition UPLOAD_BATCH_SIZE :: nat where
  "UPLOAD_BATCH_SIZE = 100"

definition upload ::
  "(nat \<Rightarrow> bool) \<Rightarrow> string list \<Rightarrow> real list list \<Rightarrow> (nat \<Rightarrow> string) \<Rightarrow> point list
     \<Rightarrow> upload_error + upload_state" where
  "upload upsert_ok drug_names embeddings now collection0 =
     upload_batches upsert_ok UPLOAD_BATCH_SIZE drug_names embeddings now 0
       \<lparr>collection = collection0, uploaded_count = 0\<rparr>"

text \<open>The number that a string of decimal digits denotes.\<close>

definition digit_value :: "char \<Rightarrow> nat" where
  "digit_value c = (case map_of (zip ascii_digits [0..<10]) c of Some v \<Rightarrow> v | None \<Rightarrow> 0)"

definition decimal_value :: "string \<Rightarrow> nat" where
  "decimal_value s = foldl (\<lambda>v c. 10 * v + digit_value c) 0 s"

text \<open>A point made by the upload from the names.\<close>

definition point_of_position :: "string list \<Rightarrow> point \<Rightarrow> bool" where
  "point_of_position drug_names p =
     (point_id p < length drug_names \<and> payload_drug_id p = str_nat (point_id p) \<and>
      decimal_value (payload_drug_id p) = point_id p \<and>
      payload_drug_name p = drug_names ! point_id p)"

section \<open>Properties of the canonicalizer\<close>

lemma upper_is_word: "c \<in> set uppercase \<Longrightarrow> is_word_char c"
  by (simp add: is_word_char_def)

lemma lower_is_word: "c \<in> set lowercase \<Longrightarrow> is_word_char c"
  by (simp add: is_word_char_def)

lemma lower_char_cases:
  "(lower_char c = c) \<or> (c \<in> set uppercase \<and> lower_char c \<in> set lowercase)"
proof (cases "map_of (zip uppercase lowercase) c")
  case None
  then show ?thesis by (simp add: lower_char_def)
next
  case (Some l)
  then have "(c, l) \<in> set (zip uppercase lowercase)"
    by (rule map_of_SomeD)
  then have "c \<in> set uppercase" "l \<in> set lowercase"
    by (auto dest: set_zip_leftD set_zip_rightD)
  with Some show ?thesis by (simp add: lower_char_def)
qed

lemma lower_char_word [simp]: "is_word_char (lower_char c) = is_word_char c"
  using lower_char_cases [of c] by (auto dest: upper_is_word lower_is_word)

lemma ci_same_class:
  "lower_char a = lower_char b \<Longrightarrow> is_word_char a = is_word_char b"
  by (metis lower_char_word)

text \<open>A case-insensitive occurrence of a name starts and ends with characters of the same
  class as the name's first and last character.\<close>

lemma prefix_ci_head:
  "prefix_ci name s \<Longrightarrow> name \<noteq> [] \<Longrightarrow> is_w (head s) = is_word_char (hd name)"
  by (induction name s rule: prefix_ci.induct) (auto dest: ci_same_class)

lemma prefix_ci_last:
  "prefix_ci name s \<Longrightarrow> name \<noteq> [] \<Longrightarrow>
   is_w (last_of prev (take (length name) s)) = is_word_char (last name)"
proof (induction name s arbitrary: prev rule: prefix_ci.induct)
  case (3 p ps c cs)
  show ?case
  proof (cases ps)
    case Nil
    with 3 show ?thesis by (auto dest: ci_same_class)
  next
    case (Cons q qs)
    with 3 show ?thesis by auto
  qed
qed auto

text \<open>For a name that starts and ends with a word character, \<open>\b\<close> on both sides of an
  occurrence says that the occurrence is a whole word.\<close>

lemma matches_at_whole_word:
  assumes "name \<noteq> []" "is_word_char (hd name)" "is_word_char (last name)"
  shows "matches_at name prev s = whole_word_at name prev s"
proof (cases "prefix_ci name s")
  case True
  with assms show ?thesis
    by (simp add: matches_at_def whole_word_at_def word_boundary_def
          prefix_ci_head prefix_ci_last)
next
  case False
  then show ?thesis by (simp add: matches_at_def whole_word_at_def)
qed

lemma matches_at_Nil: "name \<noteq> [] \<Longrightarrow> \<not> matches_at name prev []"
  by (cases name) (simp_all add: matches_at_def)

lemma sub_scan_whole_words:
  assumes "name \<noteq> []" "is_word_char (hd name)" "is_word_char (last name)"
  shows "sub_scan name repl prev s = replace_whole_words name repl prev s"
proof (induction s arbitrary: prev rule: length_induct)
  case (1 s)
  show ?case
  proof (cases s)
    case Nil
    with assms(1) show ?thesis
      by (simp add: sub_scan.simps replace_whole_words.simps matches_at_Nil)
  next
    case (Cons c cs)
    have short: "length (drop (length name) (c # cs)) < length s"
      using assms(1) Cons by (cases name) simp_all
    have tl: "length cs < length s" using Cons by simp
    show ?thesis
      using assms 1 [rule_format, OF short] 1 [rule_format, OF tl] Cons
      by (simp add: sub_scan.simps replace_whole_words.simps matches_at_whole_word)
  qed
qed

lemma embedded_only_unchanged:
  "embedded_only name prev s \<Longrightarrow> replace_whole_words name repl prev s = s"
  by (induction s arbitrary: prev) (simp_all add: replace_whole_words.simps)

text \<open>
  Where the code does what claim C3 says: for names that are not empty and begin and end
  with a word character, \<open>normalize_description\<close> is the specification's canonicalizer, and
  a first name that occurs only inside longer words (as \<open>pirin\<close> in \<open>aspirin\<close>) leaves the
  text as it is.
\<close>

lemma normalize_description_word_edged_names:
  assumes "drug_a \<noteq> []" "is_word_char (hd drug_a)" "is_word_char (last drug_a)"
    and "drug_b \<noteq> []" "is_word_char (hd drug_b)" "is_word_char (last drug_b)"
  shows "normalize_description desc drug_a drug_b = spec_canonicalize desc drug_a drug_b"
    and "embedded_only drug_a None desc \<Longrightarrow> re_sub_word drug_a ''<drugA>'' desc = desc"
  using assms
  by (simp_all add: normalize_description_def spec_canonicalize_def re_sub_word_def
        sub_scan_whole_words embedded_only_unchanged)

text \<open>The model on some inputs, among them names in another case than the text, white space
  around the text and characters above \<open>U+007F\<close> (\<open>na\<close>, i with diaeresis, \<open>ve\<close>; \<open>caf\<close>,
  e with acute accent, and a no-break space).\<close>

lemma normalize_description_examples:
  "normalize_description ''  ASPIRIN may interact with warfarin.  '' ''Aspirin'' ''Warfarin''
     = ''<drugA> may interact with <drugB>.''"
  "normalize_description ''Aspirin and Warfarin'' ''pirin'' ''Warfarin'' = ''Aspirin and <drugB>''"
  "normalize_description (''na'' @ [CHR 0xEF] @ ''ve Aspirin'') ''ve'' ''Aspirin''
     = ''na'' @ [CHR 0xEF] @ ''ve <drugB>''"
  "normalize_description ([CHR 0xC9] @ ''TOILE caf'' @ [CHR 0xE9, CHR 0xA0])
     ([CHR 0xE9] @ ''toile'') (''CAF'' @ [CHR 0xC9]) = ''<drugA> <drugB>''"
  by code_simp+

text \<open>
  Claim C3 fails in the code for a name that ends (or begins) with a character that is not a
  word character, as the drug names with a parenthesis do. The pattern puts \<open>\b\<close> behind the
  closing parenthesis, which asks for a word character next to it: the whole-word occurrence
  of \<open>Antithymocyte immunoglobulin (rabbit)\<close> in front of the full stop is not replaced,
  whatever the case of its letters, where the claim has every case-insensitive whole-word
  occurrence of a non-empty name replaced; and the occurrence of \<open>(x)\<close> inside the longer
  token \<open>a(x)b\<close>, which the claim leaves untouched, is replaced.
\<close>

theorem normalize_description_parenthesised_name:
  "whole_word_at ''Antithymocyte immunoglobulin (rabbit)'' (Some CHR '' '')
     ''Antithymocyte immunoglobulin (rabbit).'' \<and>
   normalize_description
     ''Lepirudin may increase the anticoagulant activities of Antithymocyte immunoglobulin (rabbit).''
     ''Lepirudin'' ''Antithymocyte immunoglobulin (rabbit)''
     = ''<drugA> may increase the anticoagulant activities of Antithymocyte immunoglobulin (rabbit).'' \<and>
   spec_canonicalize
     ''Lepirudin may increase the anticoagulant activities of Antithymocyte immunoglobulin (rabbit).''
     ''Lepirudin'' ''Antithymocyte immunoglobulin (rabbit)''
     = ''<drugA> may increase the anticoagulant activities of <drugB>.'' \<and>
   normalize_description ''  ASPIRIN may interact with insulin (HUMAN)  '' ''Aspirin'' ''Insulin (human)''
     = ''<drugA> may interact with insulin (HUMAN)'' \<and>
   spec_canonicalize ''  ASPIRIN may interact with insulin (HUMAN)  '' ''Aspirin'' ''Insulin (human)''
     = ''<drugA> may interact with <drugB>'' \<and>
   embedded_only ''(x)'' None ''a(x)b'' \<and>
   re_sub_word ''(x)'' ''<drugA>'' ''a(x)b'' = ''a<drugA>b''"
  by code_simp

text \<open>The empty name: \<open>\b\b\<close> matches the empty string at every word boundary.\<close>

lemma matches_at_empty: "matches_at [] prev s = (is_w prev \<noteq> is_w (head s))"
  by (simp add: matches_at_def word_boundary_def)

lemma sub_scan_empty: "sub_scan [] repl prev s = insert_at_boundaries repl prev s"
  by (induction s arbitrary: prev) (simp_all add: sub_scan.simps matches_at_empty)

lemma insert_at_boundaries_length: "length s \<le> length (insert_at_boundaries repl prev s)"
  by (induction s arbitrary: prev) (simp_all add: le_SucI trans_le_add2)

lemma insert_at_boundaries_no_word:
  "\<not> is_w prev \<Longrightarrow> \<forall>c\<in>set s. \<not> is_word_char c \<Longrightarrow> insert_at_boundaries repl prev s = s"
  by (induction s arbitrary: prev) simp_all

lemma insert_at_boundaries_longer:
  "\<not> is_w prev \<Longrightarrow> \<exists>c\<in>set s. is_word_char c \<Longrightarrow> repl \<noteq> [] \<Longrightarrow>
   length s < length (insert_at_boundaries repl prev s)"
proof (induction s arbitrary: prev)
  case Nil
  then show ?case by simp
next
  case (Cons c cs)
  show ?case
  proof (cases "is_word_char c")
    case True
    with Cons.prems insert_at_boundaries_length [of cs repl "Some c"] show ?thesis
      by (cases repl) simp_all
  next
    case False
    with Cons.prems have "\<exists>c\<in>set cs. is_word_char c" by auto
    with False Cons.IH [of "Some c"] Cons.prems(3) Cons.prems(1) show ?thesis
      by simp
  qed
qed

text \<open>
  Claim C4, as the code has it. With the empty string for the first name, the first
  substitution inserts the placeholder \<open><drugA>\<close> at every word boundary of the description
  and keeps every character of it; the result of \<open>normalize_description\<close> is what the
  second substitution and the trimming make of that text. The first substitution is a no-op
  exactly on the descriptions that have no word character (no letter, digit or underscore).
\<close>

theorem normalize_description_empty_name:
  "re_sub_word [] ''<drugA>'' desc = insert_at_boundaries ''<drugA>'' None desc \<and>
   normalize_description desc [] drug_b =
     strip (re_sub_word drug_b ''<drugB>'' (insert_at_boundaries ''<drugA>'' None desc)) \<and>
   ((re_sub_word [] ''<drugA>'' desc = desc) = (\<forall>c\<in>set desc. \<not> is_word_char c))"
proof -
  have 1: "re_sub_word [] ''<drugA>'' desc = insert_at_boundaries ''<drugA>'' None desc"
    by (simp add: re_sub_word_def sub_scan_empty)
  have "insert_at_boundaries ''<drugA>'' None desc \<noteq> desc" if "\<exists>c\<in>set desc. is_word_char c"
    using insert_at_boundaries_longer [of None desc "''<drugA>''"] that by auto
  moreover have "insert_at_boundaries ''<drugA>'' None desc = desc"
    if "\<forall>c\<in>set desc. \<not> is_word_char c"
    using that by (simp add: insert_at_boundaries_no_word)
  ultimately have "(insert_at_boundaries ''<drugA>'' None desc = desc) =
      (\<forall>c\<in>set desc. \<not> is_word_char c)"
    by blast
  with 1 show ?thesis
    by (simp add: normalize_description_def)
qed

theorem normalize_description_empty_name_witness:
  "re_sub_word [] ''<drugA>'' ''... !'' = ''... !'' \<and>
   normalize_description ''... !'' [] ''Warfarin'' = ''... !'' \<and>
   re_sub_word [] ''<drugA>'' '' Warfarin, (warfarin)! '' =
     '' <drugA>Warfarin<drugA>, (<drugA>warfarin<drugA>)! '' \<and>
   normalize_description '' Warfarin, (warfarin)! '' [] ''warfarin'' =
     ''<drugA><drugB><drugA>, (<drugA><drugB><drugA>)!''"
proof -
  have n: "\<forall>c\<in>set ''... !''. \<not> is_word_char c"
    by code_simp
  have a: "insert_at_boundaries ''<drugA>'' None ''... !'' = ''... !''"
    "strip (re_sub_word ''Warfarin'' ''<drugB>'' ''... !'') = ''... !''"
    by code_simp+
  have b: "insert_at_boundaries ''<drugA>'' None '' Warfarin, (warfarin)! '' =
      '' <drugA>Warfarin<drugA>, (<drugA>warfarin<drugA>)! ''"
    "strip (re_sub_word ''warfarin'' ''<drugB>''
       '' <drugA>Warfarin<drugA>, (<drugA>warfarin<drugA>)! '') =
     ''<drugA><drugB><drugA>, (<drugA><drugB><drugA>)!''"
    by code_simp+
  from normalize_description_empty_name [of "''... !''" "''Warfarin''"] n a
  have "re_sub_word [] ''<drugA>'' ''... !'' = ''... !'' \<and>
        normalize_description ''... !'' [] ''Warfarin'' = ''... !''"
    by (simp only:) 
  moreover from normalize_description_empty_name [of "'' Warfarin, (warfarin)! ''" "''warfarin''"]
  have "re_sub_word [] ''<drugA>'' '' Warfarin, (warfarin)! '' =
          '' <drugA>Warfarin<drugA>, (<drugA>warfarin<drugA>)! '' \<and>
        normalize_description '' Warfarin, (warfarin)! '' [] ''warfarin'' =
          ''<drugA><drugB><drugA>, (<drugA><drugB><drugA>)!''"
    by (simp only: b)
  ultimately show ?thesis
    by (simp only: simp_thms)
qed

text \<open>Claim C4 as stated fails on any description with a word in it: the result is not
  that of the second replacement alone.\<close>

theorem normalize_description_empty_name_counterexample:
  "normalize_description ''Aspirin helps'' [] ''Warfarin''
     = ''<drugA>Aspirin<drugA> <drugA>helps<drugA>'' \<and>
   strip (re_sub_word ''Warfarin'' ''<drugB>'' ''Aspirin helps'') = ''Aspirin helps''"
  by code_simp
section \<open>Properties of the ingestion\<close>

lemma set_props_keys [simp]: "map fst (set_props k v xs) = map fst xs"
  by (induction xs) (auto simp: set_props_def)

lemma set_props_fst_image [simp]: "fst ` set (set_props k v xs) = fst ` set xs"
  by (simp only: set_map [symmetric] set_props_keys)

lemma merge_set_keys [simp]: "fst ` set (merge_set k v xs) = insert k (fst ` set xs)"
  by (auto simp: merge_set_def)

lemma merge_set_length:
  "length (merge_set k v xs) = (if k \<in> set (map fst xs) then length xs else Suc (length xs))"
  by (simp add: merge_set_def set_props_def)

lemma merge_set_distinct:
  "distinct (map fst xs) \<Longrightarrow> distinct (map fst (merge_set k v xs))"
  by (simp add: merge_set_def)

lemmas key_defs = drug_ids_def reaction_ids_def interaction_pairs_def reaction_links_def

lemmas query_defs = drug_query_def reaction_query_def interaction_query_def
  has_reaction_query_def interaction_check_query_def reaction_link_check_query_def

lemma filter_length_pos: "0 < length (filter P xs) \<longleftrightarrow> (\<exists>x\<in>set xs. P x)"
  by (induction xs) auto

lemma interaction_check_pos:
  "0 < interaction_check_query g a b \<longleftrightarrow> (a, b) \<in> interaction_pairs g"
  by (force simp: interaction_check_query_def interaction_pairs_def filter_empty_conv)

lemma reaction_link_check_zero:
  "reaction_link_check_query g d r = 0 \<longleftrightarrow> (d, r) \<notin> reaction_links g"
  by (force simp: reaction_link_check_query_def reaction_links_def filter_empty_conv)

(* steps: effect on reaction_map / reaction_counter *)
lemma track_drug_core [simp]:
  "tx (track_drug d s) = tx s" "reaction_map (track_drug d s) = reaction_map s"
  "reaction_counter (track_drug d s) = reaction_counter s"
  by (simp_all add: track_drug_def)

lemma insert_drug_core [simp]:
  "tx (insert_drug d n s) = drug_query (tx s) d n"
  "reaction_map (insert_drug d n s) = reaction_map s"
  "reaction_counter (insert_drug d n s) = reaction_counter s"
  by (simp_all add: insert_drug_def)

lemma insert_interaction_core [simp]:
  "tx (insert_interaction a b d s) =
     (if (a, b) \<in> interaction_pairs (tx s) then tx s else interaction_query (tx s) a b d)"
  "reaction_map (insert_interaction a b d s) = reaction_map s"
  "reaction_counter (insert_interaction a b d s) = reaction_counter s"
  by (simp_all add: insert_interaction_def interaction_check_pos)

lemma insert_reaction_core [simp]:
  "tx (insert_reaction n d s) =
     (if reaction_map s n = None then reaction_query (tx s) (reaction_id_of (reaction_counter s)) n d
      else tx s)"
  "reaction_map (insert_reaction n d s) =
     (if reaction_map s n = None then (reaction_map s)(n \<mapsto> reaction_id_of (reaction_counter s))
      else reaction_map s)"
  "reaction_counter (insert_reaction n d s) =
     (if reaction_map s n = None then reaction_counter s + 1 else reaction_counter s)"
  by (simp_all add: insert_reaction_def Let_def)

lemma link_drug_core [simp]:
  "tx (link_drug d r s) =
     (if (d, r) \<in> reaction_links (tx s) then tx s else has_reaction_query (tx s) d r)"
  "reaction_map (link_drug d r s) = reaction_map s"
  "reaction_counter (link_drug d r s) = reaction_counter s"
  by (simp_all add: link_drug_def reaction_link_check_zero)

lemma count_processed_core [simp]:
  "tx (count_processed s) = tx s" "reaction_map (count_processed s) = reaction_map s"
  "reaction_counter (count_processed s) = reaction_counter s"
  by (simp_all add: count_processed_def)

(* queries: effect on keys *)
lemma drug_query_keys [simp]:
  "drug_ids (drug_query g d n) = insert d (drug_ids g)"
  "reaction_ids (drug_query g d n) = reaction_ids g"
  "interaction_pairs (drug_query g d n) = interaction_pairs g"
  "reaction_links (drug_query g d n) = reaction_links g"
  by (simp_all add: key_defs drug_query_def)

lemma reaction_query_keys [simp]:
  "drug_ids (reaction_query g r n d) = drug_ids g"
  "reaction_ids (reaction_query g r n d) = insert r (reaction_ids g)"
  "interaction_pairs (reaction_query g r n d) = interaction_pairs g"
  "reaction_links (reaction_query g r n d) = reaction_links g"
  by (simp_all add: key_defs reaction_query_def)

lemma interaction_query_keys [simp]:
  "drug_ids (interaction_query g a b d) = drug_ids g"
  "reaction_ids (interaction_query g a b d) = reaction_ids g"
  "interaction_pairs (interaction_query g a b d) =
     (if a \<in> drug_ids g \<and> b \<in> drug_ids g then insert (a, b) (interaction_pairs g)
      else interaction_pairs g)"
  "reaction_links (interaction_query g a b d) = reaction_links g"
  by (simp_all add: key_defs interaction_query_def)

lemma has_reaction_query_keys [simp]:
  "drug_ids (has_reaction_query g d r) = drug_ids g"
  "reaction_ids (has_reaction_query g d r) = reaction_ids g"
  "interaction_pairs (has_reaction_query g d r) = interaction_pairs g"
  "reaction_links (has_reaction_query g d r) =
     (if d \<in> drug_ids g \<and> r \<in> reaction_ids g then insert (d, r) (reaction_links g)
      else reaction_links g)"
  by (auto simp: key_defs has_reaction_query_def)

(* the record step, spelled out *)
lemma process_record_cases:
  obtains (fields) a an b bn d where "map strip record = [a, an, b, bn, d]"
    "\<And>i s. process_record i record s =
       reaction_step i a b d (normalize_description d an bn)
         (insert_interaction a b d (insert_drug b bn (insert_drug a an
            (track_drug b (track_drug a s)))))"
  | (malformed) "\<And>i s. process_record i record s =
       s\<lparr>batch_errors := batch_errors s @ [UnpackError i]\<rparr>"
      "\<And>g m k. record_present g record m k"
proof (cases "\<exists>a an b bn d. map strip record = [a, an, b, bn, d]")
  case True
  then obtain a an b bn d where f: "map strip record = [a, an, b, bn, d]"
    by (elim exE)
  show thesis
    by (rule fields [OF f]) (simp add: process_record_def f)
next
  case False
  then have "\<And>i s. process_record i record s =
       s\<lparr>batch_errors := batch_errors s @ [UnpackError i]\<rparr>"
    by (auto simp: process_record_def split: list.splits)
  moreover from False have "\<And>g m k. record_present g record m k"
    by (auto simp: record_present_def split: list.splits)
  ultimately show thesis
    by (rule malformed)
qed


lemma link_reaction_core [simp]:
  "reaction_map (link_reaction i a b n s) = reaction_map s"
  "reaction_counter (link_reaction i a b n s) = reaction_counter s"
  "tx (link_reaction i a b n s) =
     (case reaction_map s n of
        None \<Rightarrow> tx s
      | Some rid \<Rightarrow> tx (link_drug b rid (link_drug a rid s)))"
  by (simp_all add: link_reaction_def split: option.splits)

lemma keys_le_refl [simp]: "keys_le g g"
  by (simp add: keys_le_def)

lemma keys_le_trans [trans]: "keys_le g g' \<Longrightarrow> keys_le g' g'' \<Longrightarrow> keys_le g g''"
  by (auto simp: keys_le_def)

lemma record_present_mono:
  "record_present g r m k \<Longrightarrow> keys_le g g' \<Longrightarrow> record_present g' r m k"
  by (auto simp: record_present_def keys_le_def split: list.splits)

text \<open>No statement of the loop body removes a key.\<close>

lemma track_drug_le: "keys_le (tx s) (tx (track_drug d s))"
  by simp

lemma insert_drug_le: "keys_le (tx s) (tx (insert_drug d n s))"
  by (auto simp: keys_le_def)

lemma insert_interaction_le: "keys_le (tx s) (tx (insert_interaction a b d s))"
  by (auto simp: keys_le_def)

lemma insert_reaction_le: "keys_le (tx s) (tx (insert_reaction n d s))"
  by (auto simp: keys_le_def)

lemma link_drug_le: "keys_le (tx s) (tx (link_drug d r s))"
  by (auto simp: keys_le_def)

lemma link_reaction_le: "keys_le (tx s) (tx (link_reaction i a b n s))"
proof (cases "reaction_map s n")
  case None
  then show ?thesis by simp
next
  case (Some rid)
  have "keys_le (tx s) (tx (link_drug a rid s))"
    by (rule link_drug_le)
  also have "keys_le (tx (link_drug a rid s)) (tx (link_drug b rid (link_drug a rid s)))"
    by (rule link_drug_le)
  finally show ?thesis
    using Some by simp
qed

lemma reaction_step_le: "keys_le (tx s) (tx (reaction_step i a b d n s))"
  unfolding reaction_step_def
  by (rule keys_le_trans [OF insert_reaction_le link_reaction_le])

lemma process_record_keys_le: "keys_le (tx s) (tx (process_record i r s))"
proof (cases r rule: process_record_cases)
  case (fields a an b bn d)
  have "keys_le (tx s) (tx (insert_drug a an (track_drug b (track_drug a s))))"
    using insert_drug_le [of "track_drug b (track_drug a s)" a an] by simp
  also have "keys_le \<dots> (tx (insert_drug b bn (insert_drug a an (track_drug b (track_drug a s)))))"
    by (rule insert_drug_le)
  also have "keys_le \<dots> (tx (insert_interaction a b d
      (insert_drug b bn (insert_drug a an (track_drug b (track_drug a s))))))"
    by (rule insert_interaction_le)
  also have "keys_le \<dots> (tx (process_record i r s))"
    unfolding fields(2) by (rule reaction_step_le)
  finally show ?thesis .
next
  case malformed
  then show ?thesis by simp
qed


text \<open>The reaction ids of the dictionary stay ids of \<open>Reaction\<close> nodes.\<close>

lemma reactions_known_same_map:
  "reactions_known s \<Longrightarrow> reaction_map s' = reaction_map s \<Longrightarrow> keys_le (tx s) (tx s') \<Longrightarrow>
   reactions_known s'"
  by (auto simp: reactions_known_def keys_le_def)

lemma insert_reaction_known: "reactions_known s \<Longrightarrow> reactions_known (insert_reaction n d s)"
  by (auto simp: reactions_known_def)

lemma insert_reaction_lookup:
  "reaction_map (insert_reaction n d s) n =
     Some (reaction_id_for (reaction_map s) (reaction_counter s) n)"
  by (auto simp: reaction_id_for_def)

lemma process_record_known:
  "reactions_known s \<Longrightarrow> reactions_known (process_record i r s)"
proof (cases r rule: process_record_cases)
  case (fields a an b bn d)
  let ?s3 = "insert_interaction a b d
      (insert_drug b bn (insert_drug a an (track_drug b (track_drug a s))))"
  let ?n = "normalize_description d an bn"
  assume k: "reactions_known s"
  have "keys_le (tx s) (tx (insert_drug a an (track_drug b (track_drug a s))))"
    using insert_drug_le [of "track_drug b (track_drug a s)" a an] by simp
  also have "keys_le \<dots> (tx (insert_drug b bn (insert_drug a an (track_drug b (track_drug a s)))))"
    by (rule insert_drug_le)
  also have "keys_le \<dots> (tx ?s3)"
    by (rule insert_interaction_le)
  finally have "reactions_known ?s3"
    using k by (rule reactions_known_same_map [rotated 2]) simp_all
  then have "reactions_known (insert_reaction ?n d ?s3)"
    by (rule insert_reaction_known)
  then have "reactions_known (link_reaction i a b ?n (insert_reaction ?n d ?s3))"
    by (rule reactions_known_same_map) (simp, rule link_reaction_le)
  then show ?thesis
    by (simp only: fields(2) reaction_step_def)
next
  case malformed
  assume "reactions_known s"
  then show ?thesis
    by (simp add: malformed reactions_known_def)
qed

text \<open>After a record, everything it writes is in the store.\<close>

lemma link_reaction_links:
  assumes "reaction_map s n = Some rid" "a \<in> drug_ids (tx s)" "b \<in> drug_ids (tx s)"
    "rid \<in> reaction_ids (tx s)"
  shows "(a, rid) \<in> reaction_links (tx (link_reaction i a b n s)) \<and>
         (b, rid) \<in> reaction_links (tx (link_reaction i a b n s))"
  using assms by auto

lemma process_record_present:
  assumes k: "reactions_known s"
  shows "record_present (tx (process_record i r s)) r (reaction_map s) (reaction_counter s)"
proof (cases r rule: process_record_cases)
  case (fields a an b bn d)
  let ?s2 = "insert_drug b bn (insert_drug a an (track_drug b (track_drug a s)))"
  let ?s3 = "insert_interaction a b d ?s2"
  let ?n = "normalize_description d an bn"
  let ?s4 = "insert_reaction ?n d ?s3"
  let ?s5 = "link_reaction i a b ?n ?s4"
  let ?rid = "reaction_id_for (reaction_map s) (reaction_counter s) ?n"
  have s5: "process_record i r s = ?s5"
    by (simp only: fields(2) reaction_step_def)
  have le45: "keys_le (tx ?s4) (tx ?s5)"
    by (rule link_reaction_le)
  have le35: "keys_le (tx ?s3) (tx ?s5)"
    by (rule keys_le_trans [OF insert_reaction_le le45])
  have m3: "reaction_map ?s3 = reaction_map s" "reaction_counter ?s3 = reaction_counter s"
    by simp_all
  have d2: "a \<in> drug_ids (tx ?s2)" "b \<in> drug_ids (tx ?s2)"
    by simp_all
  then have d3: "a \<in> drug_ids (tx ?s3)" "b \<in> drug_ids (tx ?s3)"
    and p3: "(a, b) \<in> interaction_pairs (tx ?s3)"
    by auto
  have k3: "reactions_known ?s3"
    using k by (rule reactions_known_same_map) (auto simp: keys_le_def)
  have l4: "reaction_map ?s4 ?n = Some ?rid"
    using insert_reaction_lookup [of ?n d ?s3] by (simp only: m3)
  have "reactions_known ?s4"
    using k3 by (rule insert_reaction_known)
  with l4 have r4: "?rid \<in> reaction_ids (tx ?s4)"
    unfolding reactions_known_def by blast
  have d4: "a \<in> drug_ids (tx ?s4)" "b \<in> drug_ids (tx ?s4)"
    using d3 insert_reaction_le [of ?s3 ?n d] unfolding keys_le_def by blast+
  have links: "(a, ?rid) \<in> reaction_links (tx ?s5) \<and> (b, ?rid) \<in> reaction_links (tx ?s5)"
    by (rule link_reaction_links [OF l4 d4 r4])
  have "a \<in> drug_ids (tx ?s5)" "b \<in> drug_ids (tx ?s5)"
    "(a, b) \<in> interaction_pairs (tx ?s5)" "?rid \<in> reaction_ids (tx ?s5)"
    using d3 p3 r4 le35 le45 unfolding keys_le_def by blast+
  with links show ?thesis
    by (simp only: s5 record_present_def fields(1) list.case simp_thms)
next
  case malformed
  then show ?thesis by simp
qed
text \<open>The keys and the counts of a store are read off its shape.\<close>

lemma shape_fields:
  assumes "shape g = shape g'"
  shows "map fst (drugs g) = map fst (drugs g')" "map fst (reactions g) = map fst (reactions g')"
    "map fst (interacts g) = map fst (interacts g')" "has_reaction g = has_reaction g'"
  using assms by (simp_all add: shape_def)

lemma shape_keys:
  assumes "shape g = shape g'"
  shows "drug_ids g = drug_ids g'" "reaction_ids g = reaction_ids g'"
    "interaction_pairs g = interaction_pairs g'" "reaction_links g = reaction_links g'"
  unfolding key_defs by (simp_all only: shape_fields [OF assms])

lemma shape_counts:
  assumes "shape g = shape g'"
  shows "counts g = counts g'"
proof -
  have "length (map fst (drugs g)) = length (map fst (drugs g'))"
    "length (map fst (reactions g)) = length (map fst (reactions g'))"
    "length (map fst (interacts g)) = length (map fst (interacts g'))"
    "length (has_reaction g) = length (has_reaction g')"
    by (simp_all only: shape_fields [OF assms])
  then show ?thesis
    by (simp add: counts_def drug_count_def interaction_count_def reaction_count_def
          link_count_def)
qed

lemma shape_keys_le:
  assumes "shape g = shape g'" "keys_le h g"
  shows "keys_le h g'"
  using assms(2) unfolding keys_le_def shape_keys [OF assms(1)] .

text \<open>A statement whose key is in the store leaves the shape of the store as it is.\<close>

lemma merge_set_shape: "k \<in> fst ` set xs \<Longrightarrow> map fst (merge_set k v xs) = map fst xs"
  by (simp add: merge_set_def)

lemma insert_drug_absorb:
  "d \<in> drug_ids (tx s) \<Longrightarrow> shape (tx (insert_drug d n s)) = shape (tx s)"
  by (simp add: shape_def drug_query_def drug_ids_def merge_set_shape)

lemma insert_interaction_absorb:
  "(a, b) \<in> interaction_pairs (tx s) \<Longrightarrow> tx (insert_interaction a b d s) = tx s"
  by simp

lemma insert_reaction_absorb:
  "reaction_id_for (reaction_map s) (reaction_counter s) n \<in> reaction_ids (tx s) \<Longrightarrow>
   shape (tx (insert_reaction n d s)) = shape (tx s)"
  by (cases "reaction_map s n")
     (simp_all add: shape_def reaction_query_def reaction_ids_def merge_set_shape
        reaction_id_for_def)

lemma link_reaction_absorb:
  "reaction_map s n = Some rid \<Longrightarrow> (a, rid) \<in> reaction_links (tx s) \<Longrightarrow>
   (b, rid) \<in> reaction_links (tx s) \<Longrightarrow> tx (link_reaction i a b n s) = tx s"
  by simp

lemma process_record_absorb:
  assumes p: "record_present (tx t) r (reaction_map t) (reaction_counter t)"
  shows "shape (tx (process_record j r t)) = shape (tx t)"
proof (cases r rule: process_record_cases)
  case (fields a an b bn d)
  let ?t0 = "track_drug b (track_drug a t)"
  let ?t1 = "insert_drug a an ?t0"
  let ?t2 = "insert_drug b bn ?t1"
  let ?t3 = "insert_interaction a b d ?t2"
  let ?n = "normalize_description d an bn"
  let ?t4 = "insert_reaction ?n d ?t3"
  let ?t5 = "link_reaction j a b ?n ?t4"
  let ?rid = "reaction_id_for (reaction_map t) (reaction_counter t) ?n"
  have t5: "process_record j r t = ?t5"
    by (simp only: fields(2) reaction_step_def)
  from p have in_t: "a \<in> drug_ids (tx t)" "b \<in> drug_ids (tx t)"
    "(a, b) \<in> interaction_pairs (tx t)" "?rid \<in> reaction_ids (tx t)"
    "(a, ?rid) \<in> reaction_links (tx t)" "(b, ?rid) \<in> reaction_links (tx t)"
    by (simp_all only: record_present_def fields(1) list.case)
  have e0: "tx ?t0 = tx t" by simp
  have e1: "shape (tx ?t1) = shape (tx t)"
    using insert_drug_absorb [of a ?t0 an] in_t(1) by (simp only: e0)
  have "b \<in> drug_ids (tx ?t1)"
    using in_t(2) by (simp only: shape_keys [OF e1])
  then have "shape (tx ?t2) = shape (tx ?t1)"
    by (rule insert_drug_absorb)
  with e1 have e2: "shape (tx ?t2) = shape (tx t)"
    by (rule trans [rotated])
  have "(a, b) \<in> interaction_pairs (tx ?t2)"
    using in_t(3) by (simp only: shape_keys [OF e2])
  then have "tx ?t3 = tx ?t2"
    by (rule insert_interaction_absorb)
  with e2 have e3: "shape (tx ?t3) = shape (tx t)"
    by (simp only:)
  have m3: "reaction_map ?t3 = reaction_map t" "reaction_counter ?t3 = reaction_counter t"
    by simp_all
  have "reaction_id_for (reaction_map ?t3) (reaction_counter ?t3) ?n \<in> reaction_ids (tx ?t3)"
    using in_t(4) by (simp only: m3 shape_keys [OF e3])
  then have "shape (tx ?t4) = shape (tx ?t3)"
    by (rule insert_reaction_absorb)
  with e3 have e4: "shape (tx ?t4) = shape (tx t)"
    by (rule trans [rotated])
  have l4: "reaction_map ?t4 ?n = Some ?rid"
    using insert_reaction_lookup [of ?n d ?t3] by (simp only: m3)
  have "(a, ?rid) \<in> reaction_links (tx ?t4)" "(b, ?rid) \<in> reaction_links (tx ?t4)"
    using in_t(5,6) by (simp_all only: shape_keys [OF e4])
  with l4 have "tx ?t5 = tx ?t4"
    by (rule link_reaction_absorb)
  with e4 show ?thesis
    by (simp only: t5)
next
  case malformed
  then show ?thesis by simp
qed

text \<open>What a record does to the store, the dictionary and the counter is decided by these
  three alone.\<close>

lemma core_eq:
  "core s = core t \<longleftrightarrow>
   tx s = tx t \<and> reaction_map s = reaction_map t \<and> reaction_counter s = reaction_counter t"
  by (simp add: core_def)

lemma track_drug_cong: "core (track_drug d s) = core s"
  by (simp add: core_eq)

lemma insert_drug_cong: "core s = core t \<Longrightarrow> core (insert_drug d n s) = core (insert_drug d n t)"
  by (simp add: core_eq)

lemma insert_interaction_cong:
  "core s = core t \<Longrightarrow> core (insert_interaction a b d s) = core (insert_interaction a b d t)"
  by (simp add: core_eq)

lemma insert_reaction_cong:
  "core s = core t \<Longrightarrow> core (insert_reaction n d s) = core (insert_reaction n d t)"
  by (simp add: core_eq)

lemma link_drug_cong:
  "core s = core t \<Longrightarrow> core (link_drug d r s) = core (link_drug d r t)"
  by (simp add: core_eq)

lemma link_reaction_cong:
  assumes "core s = core t"
  shows "core (link_reaction i a b n s) = core (link_reaction j a b n t)"
proof (cases "reaction_map t n")
  case None
  with assms show ?thesis by (simp add: core_eq)
next
  case (Some rid)
  have "core (link_drug b rid (link_drug a rid s)) = core (link_drug b rid (link_drug a rid t))"
    by (intro link_drug_cong assms)
  with Some assms show ?thesis by (simp add: core_eq)
qed

lemma process_record_cong:
  assumes "core s = core t"
  shows "core (process_record i r s) = core (process_record j r t)"
proof (cases r rule: process_record_cases)
  case (fields a an b bn d)
  have "core (track_drug b (track_drug a s)) = core (track_drug b (track_drug a t))"
    using assms by (simp only: track_drug_cong)
  then show ?thesis
    unfolding fields(2) reaction_step_def
    by (intro link_reaction_cong insert_reaction_cong insert_interaction_cong insert_drug_cong)
next
  case malformed
  with assms show ?thesis by (simp add: core_eq)
qed

lemma process_record_map:
  assumes "reaction_map s = reaction_map t" "reaction_counter s = reaction_counter t"
  shows "reaction_map (process_record i r s) = reaction_map (process_record j r t) \<and>
    reaction_counter (process_record i r s) = reaction_counter (process_record j r t)"
proof (cases r rule: process_record_cases)
  case (fields a an b bn d)
  show ?thesis using assms by (simp add: fields(2) reaction_step_def)
next
  case malformed
  show ?thesis using assms by (simp add: malformed)
qed

lemma process_records_cong:
  "core s = core t \<Longrightarrow> core (process_records i rs s) = core (process_records j rs t)"
proof (induction rs arbitrary: i j s t)
  case Nil
  then show ?case by simp
next
  case (Cons r rs)
  from Cons.prems have "core (process_record i r s) = core (process_record j r t)"
    by (rule process_record_cong)
  then show ?case
    by (simp only: process_records.simps Cons.IH)
qed

lemma process_records_append:
  "process_records i (xs @ ys) s = process_records (i + length xs) ys (process_records i xs s)"
  by (induction xs arbitrary: i s) simp_all

lemma process_records_keys_le: "keys_le (tx s) (tx (process_records i rs s))"
proof (induction rs arbitrary: i s)
  case Nil
  show ?case by simp
next
  case (Cons r rs)
  have "keys_le (tx s) (tx (process_record i r s))"
    by (rule process_record_keys_le)
  also have "keys_le \<dots> (tx (process_records (i + 1) rs (process_record i r s)))"
    by (rule Cons.IH)
  finally show ?case by simp
qed

text \<open>Replay: when the store has everything that the records write from a state, processing
  them again from a state with the same dictionary and counter leaves its shape as it is.\<close>

lemma process_records_absorb:
  assumes "reaction_map s = reaction_map t" "reaction_counter s = reaction_counter t"
    "reactions_known s" "keys_le (tx (process_records i rs s)) (tx t)"
  shows "shape (tx (process_records j rs t)) = shape (tx t)"
  using assms
proof (induction rs arbitrary: i j s t)
  case Nil
  show ?case by simp
next
  case (Cons r rs)
  let ?s' = "process_record i r s" and ?t' = "process_record j r t"
  have "record_present (tx ?s') r (reaction_map s) (reaction_counter s)"
    using Cons.prems(3) by (rule process_record_present)
  moreover have le: "keys_le (tx (process_records (i + 1) rs ?s')) (tx t)"
    using Cons.prems(4) by simp
  have "keys_le (tx ?s') (tx t)"
    by (rule keys_le_trans [OF process_records_keys_le le])
  ultimately have "record_present (tx t) r (reaction_map s) (reaction_counter s)"
    by (rule record_present_mono)
  then have "record_present (tx t) r (reaction_map t) (reaction_counter t)"
    by (simp only: Cons.prems(1,2))
  then have sh: "shape (tx ?t') = shape (tx t)"
    by (rule process_record_absorb)
  have m: "reaction_map ?s' = reaction_map ?t'" "reaction_counter ?s' = reaction_counter ?t'"
    using Cons.prems(1,2) by (simp_all add: process_record_map)
  have "shape (tx (process_records (j + 1) rs ?t')) = shape (tx ?t')"
    using m process_record_known [OF Cons.prems(3)] shape_keys_le [OF sh [symmetric] le]
    by (rule Cons.IH)
  with sh show ?case by simp
qed
section \<open>Properties of the batch loop\<close>

lemma batch_loop_done:
  "\<not> (0 < batch_size \<and> batch_start < length data) \<Longrightarrow>
   batch_loop commits batch_size data batch_start s = (None, s)"
  by (subst batch_loop.simps) auto

lemma batch_loop_failed:
  "0 < batch_size \<Longrightarrow> batch_start < length data \<Longrightarrow> \<not> commits batch_start \<Longrightarrow>
   batch_loop commits batch_size data batch_start s = (Some (TransactionError batch_start), s)"
  by (subst batch_loop.simps) simp

lemma batch_loop_commit:
  "0 < batch_size \<Longrightarrow> batch_start < length data \<Longrightarrow> commits batch_start \<Longrightarrow>
   batch_loop commits batch_size data batch_start s =
     batch_loop commits batch_size data (min (batch_start + batch_size) (length data))
       (batch_step batch_size data batch_start s)"
  by (subst batch_loop.simps) (simp add: batch_step_def Let_def)





lemma clear_checkpoint_file: "checkpoint_file (clear_checkpoint w0) = None"
  by (simp add: clear_checkpoint_def split: option.splits)

lemma clear_checkpoint_store: "store (clear_checkpoint w0) = store w0"
  by (simp add: clear_checkpoint_def split: option.splits)





section \<open>Replay\<close>

lemma records_core_Nil: "records_core c [] = c"
  by (simp add: records_core_def core_def)

lemma records_core_append:
  "records_core c (xs @ ys) = records_core (records_core c xs) ys"
proof -
  let ?s0 = "\<lparr>tx = fst c, st = fresh_stats 0, reaction_map = fst (snd c),
              reaction_counter = snd (snd c), drugs_seen = {}, batch_errors = []\<rparr>"
  let ?s1 = "process_records 0 xs ?s0"
  let ?t1 = "\<lparr>tx = fst (core ?s1), st = fresh_stats 0, reaction_map = fst (snd (core ?s1)),
              reaction_counter = snd (snd (core ?s1)), drugs_seen = {}, batch_errors = []\<rparr>"
  have "core ?s1 = core ?t1"
    by (simp add: core_def)
  then have "core (process_records (0 + length xs) ys ?s1) = core (process_records 0 ys ?t1)"
    by (rule process_records_cong)
  then show ?thesis
    by (simp only: records_core_def process_records_append)
qed

lemma batch_step_core:
  "loop_core (batch_step batch_size data batch_start s) =
     records_core (loop_core s)
       (take (min (batch_start + batch_size) (length data) - batch_start) (drop batch_start data))"
proof -
  let ?batch = "take (min (batch_start + batch_size) (length data) - batch_start)
                  (drop batch_start data)"
  let ?s = "\<lparr>tx = store (w s), st = l_stats s, reaction_map = l_reaction_map s,
             reaction_counter = l_reaction_counter s, drugs_seen = {}, batch_errors = []\<rparr>"
  let ?t = "\<lparr>tx = store (w s), st = fresh_stats 0, reaction_map = l_reaction_map s,
             reaction_counter = l_reaction_counter s, drugs_seen = {}, batch_errors = []\<rparr>"
  have "core ?s = core ?t"
    by (simp add: core_def)
  then have "core (process_records batch_start ?batch ?s) = core (process_records 0 ?batch ?t)"
    by (rule process_records_cong)
  moreover have "loop_core (batch_step batch_size data batch_start s) =
      core (process_records batch_start ?batch ?s)"
    by (simp add: loop_core_def batch_step_def Let_def save_checkpoint_def process_batch_def
          core_def)
  ultimately show ?thesis
    by (simp add: records_core_def loop_core_def)
qed

lemma batch_step_store:
  "store (w (batch_step batch_size data batch_start s)) =
     tx (process_records batch_start
           (take (min (batch_start + batch_size) (length data) - batch_start)
              (drop batch_start data))
           \<lparr>tx = store (w s), st = l_stats s, reaction_map = l_reaction_map s,
            reaction_counter = l_reaction_counter s, drugs_seen = {}, batch_errors = []\<rparr>)"
  by (simp add: batch_step_def Let_def save_checkpoint_def process_batch_def)

lemma batch_loop_core:
  assumes "0 < batch_size"
  shows "fst (batch_loop commits batch_size data batch_start s) = None \<Longrightarrow>
    loop_core (snd (batch_loop commits batch_size data batch_start s)) =
      records_core (loop_core s) (drop batch_start data)"
proof (induction "length data - batch_start" arbitrary: batch_start s rule: less_induct)
  case less
  consider (finished) "\<not> batch_start < length data"
    | (failed) "batch_start < length data" "\<not> commits batch_start"
    | (commit) "batch_start < length data" "commits batch_start"
    by blast
  then show ?case
  proof cases
    case finished
    then show ?thesis by (simp add: batch_loop_done records_core_Nil)
  next
    case failed
    with less.prems assms show ?thesis by (simp add: batch_loop_failed)
  next
    case commit
    let ?end = "min (batch_start + batch_size) (length data)"
    let ?s1 = "batch_step batch_size data batch_start s"
    note step = batch_loop_commit [where commits = commits and batch_start = batch_start,
        OF assms commit]
    have "length data - ?end < length data - batch_start"
      using assms commit(1) by arith
    moreover have "fst (batch_loop commits batch_size data ?end ?s1) = None"
      using less.prems by (simp only: step)
    ultimately have "loop_core (snd (batch_loop commits batch_size data ?end ?s1)) =
        records_core (loop_core ?s1) (drop ?end data)"
      by (rule less.hyps)
    also have "\<dots> = records_core (loop_core s)
        (take (?end - batch_start) (drop batch_start data) @ drop ?end data)"
      by (simp only: batch_step_core records_core_append)
    also have "take (?end - batch_start) (drop batch_start data) @ drop ?end data =
        drop batch_start data"
    proof -
      have "batch_start \<le> ?end" using commit(1) by simp
      then have "drop ?end data = drop (?end - batch_start) (drop batch_start data)"
        by simp
      then show ?thesis
        by (simp only: append_take_drop_id)
    qed
    finally show ?thesis
      by (simp only: step)
  qed
qed

lemma batch_loop_completes:
  assumes "0 < batch_size" "\<forall>b. commits b"
  shows "fst (batch_loop commits batch_size data batch_start s) = None"
proof (induction "length data - batch_start" arbitrary: batch_start s rule: less_induct)
  case less
  show ?case
  proof (cases "batch_start < length data")
    case False
    then show ?thesis by (simp add: batch_loop_done)
  next
    case True
    let ?end = "min (batch_start + batch_size) (length data)"
    have c: "commits batch_start"
      using assms(2) by simp
    have "length data - ?end < length data - batch_start"
      using assms(1) True by arith
    then have "fst (batch_loop commits batch_size data ?end
        (batch_step batch_size data batch_start s)) = None"
      by (rule less.hyps)
    then show ?thesis
      by (simp only: batch_loop_commit [where commits = commits and batch_start = batch_start,
            OF assms(1) True c])
  qed
qed

text \<open>A run that starts without a checkpoint and ends with its result leaves the store that
  the records make of the store it found, from the empty dictionary and the counter 1.\<close>

lemma import_fresh:
  assumes "checkpoint_file w0 = None" "0 < batch_size"
    and "fst (batch_loop commits batch_size data 0
           \<lparr>w = w0, l_stats = fresh_stats (length data), l_reaction_map = Map.empty,
            l_reaction_counter = 1, total_errors = []\<rparr>) = None"
  shows "\<exists>result. snd (import_with_batch_size batch_size commits answers w0 data) = Inr result"
    and "store (fst (import_with_batch_size batch_size commits answers w0 data)) =
      fst (records_core (store w0, Map.empty, 1) data)"
    and "checkpoint_file (fst (import_with_batch_size batch_size commits answers w0 data)) = None"
proof -
  let ?s0 = "\<lparr>w = w0, l_stats = fresh_stats (length data), l_reaction_map = Map.empty,
              l_reaction_counter = 1, total_errors = []\<rparr>"
  obtain s where loop: "batch_loop commits batch_size data 0 ?s0 = (None, s)"
    using assms(3) by (cases "batch_loop commits batch_size data 0 ?s0") simp
  have run: "import_with_batch_size batch_size commits answers w0 data =
      (clear_checkpoint (w s), Inr (l_stats s, total_errors s))"
    using assms(1,2) loop
    by (simp add: import_with_batch_size_def start_state_def load_checkpoint_def)
  show "\<exists>result. snd (import_with_batch_size batch_size commits answers w0 data) = Inr result"
    by (simp add: run)
  have "loop_core s = records_core (loop_core ?s0) (drop 0 data)"
    using batch_loop_core [OF assms(2), of commits data 0 ?s0] loop by simp
  then have "fst (loop_core s) = fst (records_core (loop_core ?s0) (drop 0 data))"
    by (rule arg_cong)
  then show "store (fst (import_with_batch_size batch_size commits answers w0 data)) =
      fst (records_core (store w0, Map.empty, 1) data)"
    by (simp add: run clear_checkpoint_store loop_core_def)
  show "checkpoint_file (fst (import_with_batch_size batch_size commits answers w0 data)) = None"
    by (simp add: run clear_checkpoint_file)
qed

lemma records_core_absorb:
  "shape (fst (records_core (fst (records_core (g, Map.empty, 1) data), Map.empty, 1) data)) =
   shape (fst (records_core (g, Map.empty, 1) data))"
proof -
  let ?s = "\<lparr>tx = g, st = fresh_stats 0, reaction_map = Map.empty, reaction_counter = 1,
             drugs_seen = {}, batch_errors = []\<rparr>"
  let ?t = "\<lparr>tx = tx (process_records 0 data ?s), st = fresh_stats 0, reaction_map = Map.empty,
             reaction_counter = 1, drugs_seen = {}, batch_errors = []\<rparr>"
  have "shape (tx (process_records 0 data ?t)) = shape (tx ?t)"
  proof (rule process_records_absorb [of ?s ?t 0 data 0])
    show "reaction_map ?s = reaction_map ?t" by simp
    show "reaction_counter ?s = reaction_counter ?t" by simp
    show "reactions_known ?s" by (simp add: reactions_known_def)
    show "keys_le (tx (process_records 0 data ?s)) (tx ?t)" by simp
  qed
  then show ?thesis
    by (simp add: records_core_def core_def)
qed

text \<open>
  Claim C2. A run that starts without a checkpoint, on any store and any list of records,
  and in which every transaction commits, ends with its result and leaves no checkpoint; a
  second run over the same records then starts at offset 0 again, ends with its result, and
  leaves the numbers of \<open>Drug\<close> nodes, of \<open>INTERACTS_WITH\<close> edges, of \<open>Reaction\<close> nodes and of
  \<open>HAS_REACTION\<close> edges as the first run left them; the keys of the nodes and of the edges
  are the same as well.
\<close>

theorem replay_idempotent:
  assumes "checkpoint_file w0 = None" "\<forall>b. commits1 b" "\<forall>b. commits2 b"
  shows "\<exists>w1 w2 result1 result2.
     import_to_neo4j_with_recovery commits1 answers1 w0 data = (w1, Inr result1) \<and>
     import_to_neo4j_with_recovery commits2 answers2 w1 data = (w2, Inr result2) \<and>
     counts (store w2) = counts (store w1) \<and> shape (store w2) = shape (store w1)"
proof -
  let ?run1 = "import_with_batch_size BATCH_SIZE commits1 answers1 w0 data"
  let ?run2 = "import_with_batch_size BATCH_SIZE commits2 answers2 (fst ?run1) data"
  have b: "0 < BATCH_SIZE"
    by (simp add: BATCH_SIZE_def)
  note one = import_fresh [OF assms(1) b batch_loop_completes [OF b assms(2)],
      where data = data and answers = answers1]
  note two = import_fresh [OF one(3) b batch_loop_completes [OF b assms(3)],
      where data = data and answers = answers2]
  from one(1) obtain result1 where "snd ?run1 = Inr result1"
    by (rule exE)
  then have r1: "?run1 = (fst ?run1, Inr result1)"
    by (simp add: prod_eq_iff)
  from two(1) obtain result2 where "snd ?run2 = Inr result2"
    by (rule exE)
  then have r2: "?run2 = (fst ?run2, Inr result2)"
    by (simp add: prod_eq_iff)
  have sh: "shape (store (fst ?run2)) = shape (store (fst ?run1))"
    unfolding two(2) one(2) by (rule records_core_absorb)
  then have c: "counts (store (fst ?run2)) = counts (store (fst ?run1))"
    by (rule shape_counts)
  show ?thesis
    unfolding import_to_neo4j_with_recovery_def
  proof (intro exI conjI)
    show "?run1 = (fst ?run1, Inr result1)" by (rule r1)
    show "?run2 = (fst ?run2, Inr result2)" by (rule r2)
    show "counts (store (fst ?run2)) = counts (store (fst ?run1))" by (rule c)
    show "shape (store (fst ?run2)) = shape (store (fst ?run1))" by (rule sh)
  qed
qed

theorem replay_idempotent_witness:
  "\<exists>w1 w2 result1 result2.
     import_to_neo4j_with_recovery (\<lambda>b. True) []
       \<lparr>store = empty_graph, checkpoint_file = None, trace = []\<rparr>
       [[''D1'', ''Lepirudin'', ''D2'', ''Apixaban'', ''Lepirudin may interact with Apixaban.''],
        [''D2'', ''Apixaban'', ''D1'', ''Lepirudin'', ''Apixaban may interact with Lepirudin.'']]
       = (w1, Inr result1) \<and>
     import_to_neo4j_with_recovery (\<lambda>b. True) [] w1
       [[''D1'', ''Lepirudin'', ''D2'', ''Apixaban'', ''Lepirudin may interact with Apixaban.''],
        [''D2'', ''Apixaban'', ''D1'', ''Lepirudin'', ''Apixaban may interact with Lepirudin.'']]
       = (w2, Inr result2) \<and>
     counts (store w2) = counts (store w1) \<and> shape (store w2) = shape (store w1)"
proof -
  have c: "checkpoint_file \<lparr>store = empty_graph, checkpoint_file = None, trace = []\<rparr> = None"
    by simp
  have t: "\<forall>b :: nat. (\<lambda>b. True) b"
    by (rule allI) (rule TrueI)
  show ?thesis
    by (rule replay_idempotent [OF c t t])
qed

section \<open>Properties of the query layer\<close>

lemma contains_sublist: "contains s sub = sublist sub s"
  by (induction s) (simp_all add: sublist_Cons_right)

lemma sort_key_Nil_iff: "(sort_key f xs = []) = (xs = [])"
  using length_sort [of f xs] by (cases xs) auto

lemma sort_key_head_least:
  assumes "sort_key f xs = e # rest"
  shows "e \<in> set xs" "\<And>x. x \<in> set xs \<Longrightarrow> f e \<le> f x"
proof -
  have s: "set xs = set (e # rest)"
    using set_sort [of f xs] assms by simp
  then show "e \<in> set xs" by simp
  have "sorted (map f (e # rest))"
    using sorted_sort_key [of f xs] assms by simp
  then show "f e \<le> f x" if "x \<in> set xs" for x
    using that s by auto
qed

text \<open>
  Claim C7, as the code has it. The resolution returns a \<open>Drug\<close> node of the first of these
  kinds that the store has: a node whose name is the query up to case; a node whose id is the
  query up to case; a node whose name contains the query up to case. It returns not-found
  exactly when the store has no node of any of the three kinds; that a stored name is
  contained in the query does not count.
\<close>

theorem entity_search_query_priority:
  "(case entity_search_query g q of
      None \<Rightarrow>
        (\<forall>e\<in>set (drugs g). str_lower (snd e) \<noteq> str_lower q \<and> str_lower (fst e) \<noteq> str_lower q \<and>
           \<not> contains (str_lower (snd e)) (str_lower q))
    | Some e \<Rightarrow>
        e \<in> set (drugs g) \<and>
        (if \<exists>e'\<in>set (drugs g). str_lower (snd e') = str_lower q
         then str_lower (snd e) = str_lower q
         else if \<exists>e'\<in>set (drugs g). str_lower (fst e') = str_lower q
         then str_lower (fst e) = str_lower q
         else contains (str_lower (snd e)) (str_lower q))) \<and>
   ((entity_search_query g q = None) =
      (\<forall>e\<in>set (drugs g). \<not> entity_where q e))"
proof (cases "sort_key (entity_order q) (filter (entity_where q) (drugs g))")
  case Nil
  then have "filter (entity_where q) (drugs g) = []"
    by (simp add: sort_key_Nil_iff)
  then have "\<forall>e\<in>set (drugs g). \<not> entity_where q e"
    by (simp add: filter_empty_conv)
  with Nil show ?thesis
    by (auto simp: entity_search_query_def entity_where_def)
next
  case (Cons e rest)
  have e: "e \<in> set (drugs g)" "entity_where q e"
    using sort_key_head_least(1) [OF Cons] by auto
  have least: "entity_order q e \<le> entity_order q e'"
    if "e' \<in> set (drugs g)" "entity_where q e'" for e'
    using sort_key_head_least(2) [OF Cons, of e'] that by simp
  have 1: "str_lower (snd e) = str_lower q"
    if "e' \<in> set (drugs g)" "str_lower (snd e') = str_lower q" for e'
    using least [of e'] that by (auto simp: entity_order_def entity_where_def split: if_splits)
  have 2: "str_lower (fst e) = str_lower q"
    if "e' \<in> set (drugs g)" "str_lower (fst e') = str_lower q"
      "\<forall>e'\<in>set (drugs g). str_lower (snd e') \<noteq> str_lower q" for e'
    using least [of e'] that e(1) by (auto simp: entity_order_def entity_where_def split: if_splits)
  have 3: "contains (str_lower (snd e)) (str_lower q)"
    if "\<forall>e'\<in>set (drugs g). str_lower (snd e') \<noteq> str_lower q"
      "\<forall>e'\<in>set (drugs g). str_lower (fst e') \<noteq> str_lower q"
    using that e by (auto simp: entity_where_def)
  have "entity_search_query g q = Some e"
    by (simp add: entity_search_query_def Cons)
  with e 1 2 3 show ?thesis
    by auto
qed

theorem entity_search_query_priority_witness:
  "entity_search_query
     (empty_graph\<lparr>drugs := [(''D1'', ''Aspirin Plus''), (''aspirin'', ''Ibuprofen''), (''D3'', ''ASPIRIN'')]\<rparr>)
     ''Aspirin'' = Some (''D3'', ''ASPIRIN'') \<and>
   str_lower (snd (''D3'', ''ASPIRIN'')) = str_lower ''Aspirin'' \<and>
   entity_search_query
     (empty_graph\<lparr>drugs := [(''D1'', ''Aspirin Plus''), (''aspirin'', ''Ibuprofen'')]\<rparr>)
     ''Aspirin'' = Some (''aspirin'', ''Ibuprofen'') \<and>
   entity_search_query (empty_graph\<lparr>drugs := [(''D1'', ''Aspirin Plus'')]\<rparr>) ''Aspirin''
     = Some (''D1'', ''Aspirin Plus'') \<and>
   contains (str_lower (snd (''D1'', ''Aspirin Plus''))) (str_lower ''Aspirin'')"
proof -
  let ?g = "empty_graph\<lparr>drugs := [(''D1'', ''Aspirin Plus''), (''aspirin'', ''Ibuprofen''), (''D3'', ''ASPIRIN'')]\<rparr>"
  let ?h = "empty_graph\<lparr>drugs := [(''D1'', ''Aspirin Plus'')]\<rparr>"
  have g: "entity_search_query ?g ''Aspirin'' = Some (''D3'', ''ASPIRIN'')"
    "\<exists>e'\<in>set (drugs ?g). str_lower (snd e') = str_lower ''Aspirin''"
    by code_simp+
  have h: "entity_search_query ?h ''Aspirin'' = Some (''D1'', ''Aspirin Plus'')"
    "\<not> (\<exists>e'\<in>set (drugs ?h). str_lower (snd e') = str_lower ''Aspirin'')"
    "\<not> (\<exists>e'\<in>set (drugs ?h). str_lower (fst e') = str_lower ''Aspirin'')"
    by code_simp+
  have m: "entity_search_query
     (empty_graph\<lparr>drugs := [(''D1'', ''Aspirin Plus''), (''aspirin'', ''Ibuprofen'')]\<rparr>)
     ''Aspirin'' = Some (''aspirin'', ''Ibuprofen'')"
    by code_simp
  have "str_lower (snd (''D3'', ''ASPIRIN'')) = str_lower ''Aspirin''"
    using entity_search_query_priority [of ?g "''Aspirin''"] g by (simp only: option.case if_True)
  moreover have "contains (str_lower (snd (''D1'', ''Aspirin Plus''))) (str_lower ''Aspirin'')"
    using entity_search_query_priority [of ?h "''Aspirin''"] h by (simp only: option.case if_False)
  ultimately show ?thesis
    using g(1) h(1) m by (simp only: simp_thms)
qed

text \<open>Claim C7 as stated fails: a store whose only node has a name that is contained in the
  query, and no node with the query for its name or its id, gives not-found.\<close>

theorem entity_search_query_counterexample:
  "entity_search_query (empty_graph\<lparr>drugs := [(''D1'', ''Aspirin'')]\<rparr>) ''Aspirin tablets'' = None \<and>
   spec_substring_match ''Aspirin tablets'' (''D1'', ''Aspirin'') \<and>
   contains (str_lower ''Aspirin tablets'') (str_lower ''Aspirin'') \<and>
   str_lower ''Aspirin'' \<noteq> str_lower ''Aspirin tablets'' \<and>
   str_lower ''D1'' \<noteq> str_lower ''Aspirin tablets''"
  by code_simp

text \<open>The loop over the rows keeps the first row of every key.\<close>

lemma seen_pairs_loop_keys:
  "distinct (map pair_key relationships) \<Longrightarrow> set (map pair_key relationships) = seen \<Longrightarrow>
   distinct (map pair_key (seen_pairs_loop result seen relationships)) \<and>
   set (map pair_key (seen_pairs_loop result seen relationships)) = seen \<union> set (map pair_key result)"
proof (induction result arbitrary: seen relationships)
  case Nil
  then show ?case by simp
next
  case (Cons r result)
  show ?case
  proof (cases "pair_key r \<in> seen")
    case True
    with Cons.IH [of relationships seen] Cons.prems show ?thesis
      by auto
  next
    case False
    with Cons.prems have "distinct (map pair_key (relationships @ [r]))"
      "set (map pair_key (relationships @ [r])) = insert (pair_key r) seen"
      by auto
    from Cons.IH [OF this] False show ?thesis
      by auto
  qed
qed

lemma seen_pairs_loop_subseq:
  "\<exists>kept. seen_pairs_loop result seen relationships = relationships @ kept \<and> subseq kept result"
proof (induction result arbitrary: seen relationships)
  case Nil
  show ?case by simp
next
  case (Cons r result)
  show ?case
  proof (cases "pair_key r \<in> seen")
    case True
    with Cons.IH [of seen relationships] show ?thesis
      by auto
  next
    case False
    from Cons.IH [of "insert (pair_key r) seen" "relationships @ [r]"]
    obtain kept where "seen_pairs_loop result (insert (pair_key r) seen) (relationships @ [r])
        = (relationships @ [r]) @ kept" "subseq kept result"
      by blast
    with False have "seen_pairs_loop (r # result) seen relationships = relationships @ (r # kept)"
      "subseq (r # kept) (r # result)"
      by simp_all
    then show ?thesis by blast
  qed
qed

lemma pair_key_unordered: "(pair_key r = pair_key r') = (unordered_pair r = unordered_pair r')"
  by (auto simp: pair_key_def unordered_pair_def doubleton_eq_iff)

lemma distinct_unordered:
  "distinct (map pair_key rows) \<Longrightarrow> distinct (map unordered_pair rows)"
  by (induction rows) (auto simp: pair_key_unordered [symmetric])

text \<open>
  Claim C8. For every graph, every list of names, every relationship type and every limit,
  the records that \<open>_get_multi_entity_relationships\<close> returns have different unordered name
  pairs, so that a pair is never reported in both orders; the key that tells the pairs apart
  is the alphabetically sorted pair of the two names. The records are rows of the query in
  the order of the query, and every pair that the query has a row for is reported.
\<close>

theorem get_multi_entity_relationships_unique_pairs:
  "distinct (map unordered_pair (get_multi_entity_relationships g entity_names rel_type limit)) \<and>
   distinct (map pair_key (get_multi_entity_relationships g entity_names rel_type limit)) \<and>
   set (map pair_key (get_multi_entity_relationships g entity_names rel_type limit)) =
     set (map pair_key (cypher_query g entity_names rel_type limit)) \<and>
   subseq (get_multi_entity_relationships g entity_names rel_type limit)
     (cypher_query g entity_names rel_type limit)"
proof -
  let ?rows = "cypher_query g entity_names rel_type limit"
  have k: "distinct (map pair_key (seen_pairs_loop ?rows {} [])) \<and>
      set (map pair_key (seen_pairs_loop ?rows {} [])) = {} \<union> set (map pair_key ?rows)"
    by (rule seen_pairs_loop_keys) simp_all
  moreover have "subseq (seen_pairs_loop ?rows {} []) ?rows"
    using seen_pairs_loop_subseq [of ?rows "{}" "[]"] by auto
  ultimately show ?thesis
    by (simp add: get_multi_entity_relationships_def distinct_unordered)
qed

text \<open>The two drugs of claim C1 with an edge in each direction and a shared reaction: the
  query has a row for either edge, and one record is returned.\<close>

lemma get_multi_entity_relationships_example:
  "map (\<lambda>r. (entity1_name r, entity2_name r, interaction_description r))
     (cypher_query
        \<lparr>drugs = [(''D1'', ''Lepirudin''), (''D2'', ''Apixaban'')],
         reactions = [(''R0001'', ''<drugA> interacts with <drugB>.'', ''x'')],
         interacts = [((''D1'', ''D2''), ''Lepirudin interacts with Apixaban.''),
                      ((''D2'', ''D1''), ''Apixaban interacts with Lepirudin.'')],
         has_reaction = [(''D1'', ''R0001''), (''D2'', ''R0001'')]\<rparr>
        [''lepirudin'', ''APIXABAN''] ''INTERACTS_WITH'' 20)
   = [(''Apixaban'', ''Lepirudin'', ''Lepirudin interacts with Apixaban.''),
      (''Apixaban'', ''Lepirudin'', ''Apixaban interacts with Lepirudin.'')]"
  "map (\<lambda>r. (entity1_name r, entity2_name r, interaction_description r, reaction_description r))
     (get_multi_entity_relationships
        \<lparr>drugs = [(''D1'', ''Lepirudin''), (''D2'', ''Apixaban'')],
         reactions = [(''R0001'', ''<drugA> interacts with <drugB>.'', ''x'')],
         interacts = [((''D1'', ''D2''), ''Lepirudin interacts with Apixaban.''),
                      ((''D2'', ''D1''), ''Apixaban interacts with Lepirudin.'')],
         has_reaction = [(''D1'', ''R0001''), (''D2'', ''R0001'')]\<rparr>
        [''lepirudin'', ''APIXABAN''] ''INTERACTS_WITH'' 20)
   = [(''Apixaban'', ''Lepirudin'', ''Lepirudin interacts with Apixaban.'',
       Some ''<drugA> interacts with <drugB>.'')]"
  by code_simp+










text \<open>\<open>str\<close> of a number is its decimal numeral.\<close>

lemma digit_value_digits: "\<forall>k\<in>set [0..<10]. digit_value (ascii_digits ! k) = k"
  by code_simp

lemma digit_value_nth: "k < 10 \<Longrightarrow> digit_value (ascii_digits ! k) = k"
  using digit_value_digits by simp

lemma decimal_value_snoc: "decimal_value (s @ [c]) = 10 * decimal_value s + digit_value c"
  by (simp add: decimal_value_def)

lemma decimal_value_str_nat: "decimal_value (str_nat n) = n"
proof (induction n rule: str_nat.induct)
  case (1 n)
  show ?case
  proof (cases "n < 10")
    case True
    then have "str_nat n = [ascii_digits ! n]"
      by (simp add: str_nat.simps)
    with True show ?thesis
      by (simp add: decimal_value_def digit_value_nth)
  next
    case False
    then have "str_nat n = str_nat (n div 10) @ [ascii_digits ! (n mod 10)]"
      by (subst str_nat.simps) simp
    with False 1 show ?thesis
      by (simp add: decimal_value_snoc digit_value_nth)
  qed
qed

lemma point_id_make_point: "point_id (make_point drug_names embeddings now idx) = idx"
  by (simp add: make_point_def)

lemma make_point_position:
  "idx < length drug_names \<Longrightarrow>
   point_of_position drug_names (make_point drug_names embeddings now idx)"
  by (simp add: point_of_position_def make_point_def decimal_value_str_nat)

lemma prepare_batch_points:
  assumes "prepare_batch drug_names embeddings now batch_start batch_end = Inr batch_points"
    and "batch_end \<le> length drug_names"
  shows "batch_points = map (make_point drug_names embeddings now) [batch_start..<batch_end]"
    and "\<forall>p\<in>set batch_points. point_of_position drug_names p"
proof -
  show m: "batch_points = map (make_point drug_names embeddings now) [batch_start..<batch_end]"
    using assms(1) by (simp add: prepare_batch_def split: option.splits)
  show "\<forall>p\<in>set batch_points. point_of_position drug_names p"
    unfolding m using assms(2) by (auto intro: make_point_position)
qed

lemma prepare_batch_ok:
  "batch_end \<le> length embeddings \<Longrightarrow>
   prepare_batch drug_names embeddings now batch_start batch_end =
     Inr (map (make_point drug_names embeddings now) [batch_start..<batch_end])"
  by (auto simp: prepare_batch_def find_None_iff split: option.splits)

lemma upsert_point_set: "set (upsert_point p c) \<subseteq> insert p (set c)"
  by (auto simp: upsert_point_def)

lemma upsert_set: "set (upsert ps c) \<subseteq> set ps \<union> set c"
proof (induction ps arbitrary: c)
  case Nil
  show ?case by (simp add: upsert_def)
next
  case (Cons p ps)
  have "set (upsert (p # ps) c) = set (upsert ps (upsert_point p c))"
    by (simp add: upsert_def)
  also have "\<dots> \<subseteq> set ps \<union> set (upsert_point p c)"
    by (rule Cons.IH)
  also have "\<dots> \<subseteq> set (p # ps) \<union> set c"
    using upsert_point_set [of p c] by auto
  finally show ?case .
qed

lemma upsert_new:
  "distinct (map point_id ps) \<Longrightarrow> set (map point_id ps) \<inter> set (map point_id c) = {} \<Longrightarrow>
   upsert ps c = c @ ps"
proof (induction ps arbitrary: c)
  case Nil
  show ?case by (simp add: upsert_def)
next
  case (Cons p ps)
  from Cons.prems have new: "upsert_point p c = c @ [p]"
    by (auto simp: upsert_point_def)
  have "upsert (p # ps) c = upsert ps (c @ [p])"
    by (simp add: upsert_def new)
  also have "\<dots> = (c @ [p]) @ ps"
    using Cons.prems by (intro Cons.IH) auto
  finally show ?case by simp
qed

text \<open>Every point of the collection is there from before, or was made from its position.\<close>

lemma upload_batches_points:
  assumes "upload_batches upsert_ok batch_size drug_names embeddings now batch_start s = Inr s'"
    and "\<forall>p\<in>set (collection s). p \<in> old \<or> point_of_position drug_names p"
  shows "\<forall>p\<in>set (collection s'). p \<in> old \<or> point_of_position drug_names p"
  using assms
proof (induction upsert_ok batch_size drug_names embeddings now batch_start s
       rule: upload_batches.induct)
  case (1 upsert_ok batch_size drug_names embeddings now batch_start s)
  let ?end = "min (batch_start + batch_size) (length drug_names)"
  show ?case
  proof (cases "batch_size \<noteq> 0 \<and> batch_start < length drug_names")
    case False
    with "1.prems" show ?thesis
      by (subst (asm) upload_batches.simps) (auto split: if_splits)
  next
    case True
    with "1.prems"(1) obtain batch_points where
      b: "prepare_batch drug_names embeddings now batch_start ?end = Inr batch_points"
      by (subst (asm) upload_batches.simps) (auto split: sum.splits)
    let ?s = "if upsert_ok batch_start
                then s\<lparr>collection := upsert batch_points (collection s),
                       uploaded_count := uploaded_count s + length batch_points\<rparr>
                else s"
    from True b "1.prems"(1) have
      run: "upload_batches upsert_ok batch_size drug_names embeddings now ?end ?s = Inr s'"
      by (subst (asm) upload_batches.simps) simp
    have good: "\<forall>p\<in>set batch_points. point_of_position drug_names p"
      by (rule prepare_batch_points(2) [OF b]) simp
    have "\<forall>p\<in>set (collection ?s). p \<in> old \<or> point_of_position drug_names p"
      using good "1.prems"(2) upsert_set [of batch_points "collection s"] by auto
    with True b run show ?thesis
      by (intro "1.IH") auto
  qed
qed

text \<open>When every upsert succeeds and there is an embedding for every name, the upload into
  an empty collection ends with the points of all positions, in order.\<close>

lemma upload_batches_all:
  assumes "\<forall>b. upsert_ok b" "length drug_names \<le> length embeddings" "0 < batch_size"
    and "batch_start \<le> length drug_names"
    and "collection s = map (make_point drug_names embeddings now) [0..<batch_start]"
  shows "\<exists>s'. upload_batches upsert_ok batch_size drug_names embeddings now batch_start s = Inr s' \<and>
     collection s' = map (make_point drug_names embeddings now) [0..<length drug_names] \<and>
     uploaded_count s' = uploaded_count s + (length drug_names - batch_start)"
  using assms
proof (induction upsert_ok batch_size drug_names embeddings now batch_start s
       rule: upload_batches.induct)
  case (1 upsert_ok batch_size drug_names embeddings now batch_start s)
  let ?end = "min (batch_start + batch_size) (length drug_names)"
  let ?mk = "make_point drug_names embeddings now"
  show ?case
  proof (cases "batch_start < length drug_names")
    case False
    with "1.prems" have "batch_start = length drug_names" by simp
    with "1.prems" show ?thesis
      by (subst upload_batches.simps) simp
  next
    case True
    have b: "prepare_batch drug_names embeddings now batch_start ?end = Inr (map ?mk [batch_start..<?end])"
      using "1.prems"(2) by (intro prepare_batch_ok) simp
    let ?s = "s\<lparr>collection := upsert (map ?mk [batch_start..<?end]) (collection s),
                uploaded_count := uploaded_count s + length (map ?mk [batch_start..<?end])\<rparr>"
    have ids: "map (point_id \<circ> ?mk) xs = xs" for xs
      by (induction xs) (simp_all add: point_id_make_point)
    have "upsert (map ?mk [batch_start..<?end]) (collection s) =
        collection s @ map ?mk [batch_start..<?end]"
      by (rule upsert_new) (auto simp: ids "1.prems"(5) point_id_make_point)
    also have "\<dots> = map ?mk ([0..<batch_start] @ [batch_start..<?end])"
      by (simp add: "1.prems"(5))
    also have "[0..<batch_start] @ [batch_start..<?end] = [0..<?end]"
      using True upt_add_eq_append [of 0 batch_start "?end - batch_start"] by simp
    finally have c: "collection ?s = map ?mk [0..<?end]"
      by simp
    let ?t = "if upsert_ok batch_start then ?s else s"
    have t: "?t = ?s"
      using "1.prems"(1) by simp
    have step: "upload_batches upsert_ok batch_size drug_names embeddings now batch_start s =
        upload_batches upsert_ok batch_size drug_names embeddings now ?end ?t"
      using True "1.prems"(3) b by (subst upload_batches.simps) simp
    have n: "batch_size \<noteq> 0"
      using "1.prems"(3) by simp
    have "\<exists>s'. upload_batches upsert_ok batch_size drug_names embeddings now ?end ?t = Inr s' \<and>
       collection s' = map ?mk [0..<length drug_names] \<and>
       uploaded_count s' = uploaded_count ?t + (length drug_names - ?end)"
      using "1.prems"(1,2,3) c by (intro "1.IH" [OF n True b]) simp_all
    then show ?thesis
      using True by (auto simp: step t)
  qed
qed

text \<open>
  Claim C10. Every point that the upload has put into the collection was made from a
  position \<open>idx\<close> of the array of names: its id is \<open>idx\<close>, its payload field \<open>drug_id\<close> is
  \<open>str(idx)\<close>, the decimal numeral of the id and nothing else, and its payload field
  \<open>drug_name\<close> is the name at position \<open>idx\<close>. When every upsert succeeds and there is an
  embedding for every name, the upload into an empty collection returns, and the collection
  then has the point of every position.
\<close>

theorem upload_point_ids:
  "(\<forall>s. upload upsert_ok drug_names embeddings now collection0 = Inr s \<longrightarrow>
      (\<forall>p\<in>set (collection s). p \<in> set collection0 \<or>
         (point_id p < length drug_names \<and> payload_drug_id p = str_nat (point_id p) \<and>
          decimal_value (payload_drug_id p) = point_id p \<and>
          payload_drug_name p = drug_names ! point_id p))) \<and>
   ((\<forall>b. upsert_ok b) \<and> length drug_names \<le> length embeddings \<longrightarrow>
      (\<exists>s. upload upsert_ok drug_names embeddings now [] = Inr s \<and>
         collection s = map (make_point drug_names embeddings now) [0..<length drug_names] \<and>
         uploaded_count s = length drug_names))"
proof (intro conjI allI impI)
  fix s
  assume "upload upsert_ok drug_names embeddings now collection0 = Inr s"
  then have "\<forall>p\<in>set (collection s). p \<in> set collection0 \<or> point_of_position drug_names p"
    unfolding upload_def by (rule upload_batches_points) simp
  then show "\<forall>p\<in>set (collection s). p \<in> set collection0 \<or>
         (point_id p < length drug_names \<and> payload_drug_id p = str_nat (point_id p) \<and>
          decimal_value (payload_drug_id p) = point_id p \<and>
          payload_drug_name p = drug_names ! point_id p)"
    by (simp only: point_of_position_def)
next
  assume a: "(\<forall>b. upsert_ok b) \<and> length drug_names \<le> length embeddings"
  have "\<exists>s'. upload_batches upsert_ok UPLOAD_BATCH_SIZE drug_names embeddings now 0
           \<lparr>collection = [], uploaded_count = 0\<rparr> = Inr s' \<and>
     collection s' = map (make_point drug_names embeddings now) [0..<length drug_names] \<and>
     uploaded_count s' = uploaded_count \<lparr>collection = [], uploaded_count = 0\<rparr> + (length drug_names - 0)"
    using a by (intro upload_batches_all) (simp_all add: UPLOAD_BATCH_SIZE_def)
  then show "\<exists>s. upload upsert_ok drug_names embeddings now [] = Inr s \<and>
         collection s = map (make_point drug_names embeddings now) [0..<length drug_names] \<and>
         uploaded_count s = length drug_names"
    by (simp add: upload_def)
qed

theorem upload_point_ids_witness:
  "upload (\<lambda>b. True) [''Aspirin'', ''Warfarin''] [[1, 0], [0, 1]] (\<lambda>idx. ''2025-07-01'') [] =
     Inr \<lparr>collection =
            [\<lparr>point_id = 0, vector = [1, 0], payload_drug_name = ''Aspirin'',
              payload_drug_id = ''0'', payload_upload_timestamp = ''2025-07-01''\<rparr>,
             \<lparr>point_id = 1, vector = [0, 1], payload_drug_name = ''Warfarin'',
              payload_drug_id = ''1'', payload_upload_timestamp = ''2025-07-01''\<rparr>],
          uploaded_count = 2\<rparr>"
proof -
  let ?names = "[''Aspirin'', ''Warfarin'']" and ?emb = "[[1, 0], [0, 1 :: real]]"
  let ?now = "\<lambda>idx :: nat. ''2025-07-01''"
  have h: "(\<forall>b. (\<lambda>b :: nat. True) b) \<and> length ?names \<le> length ?emb"
    by simp
  have m: "map (make_point ?names ?emb ?now) [0..<length ?names] =
      [\<lparr>point_id = 0, vector = [1, 0], payload_drug_name = ''Aspirin'',
        payload_drug_id = ''0'', payload_upload_timestamp = ''2025-07-01''\<rparr>,
       \<lparr>point_id = 1, vector = [0, 1], payload_drug_name = ''Warfarin'',
        payload_drug_id = ''1'', payload_upload_timestamp = ''2025-07-01''\<rparr>]"
    by code_simp
  from upload_point_ids [of "\<lambda>b. True" ?names ?emb ?now "[]"] h
  obtain s where s: "upload (\<lambda>b. True) ?names ?emb ?now [] = Inr s"
    "collection s = map (make_point ?names ?emb ?now) [0..<length ?names]"
    "uploaded_count s = length ?names"
    by blast
  from s(2,3) have "s = \<lparr>collection = map (make_point ?names ?emb ?now) [0..<length ?names],
      uploaded_count = 2\<rparr>"
    by simp
  with s(1) show ?thesis
    by (simp only: m)
qed


end
